theory Spec2Isabelle
  imports Complex_Main "HOL-Library.Word"
begin

unbundle bit_operations_syntax

section \<open>Conventions of the embedding\<close>

text \<open>
  The C++ sources of asciiplay are embedded function by function.  \<open>uint8_t\<close>, \<open>uint32_t\<close> and
  \<open>uint64_t\<close> are words of that width.  An \<open>int\<close> is an integer; where a product of the source
  can leave the range of \<open>int\<close> the model tests \<open>in_int\<close> and returns an error, since signed
  overflow is undefined in C++.  \<open>std::string\<close> is a list of bytes.  A read or write outside a
  buffer, an integer division by zero and a conversion of a floating-point value that has no
  \<open>int\<close> are undefined in C++ too; the model returns an error value there.
\<close>

definition in_int :: "int \<Rightarrow> bool" where
  "in_int v \<longleftrightarrow> - 2147483648 \<le> v \<and> v \<le> 2147483647"

section \<open>Floating point\<close>

text \<open>
  A \<open>float\<close> or \<open>double\<close> is a finite number (\<open>Fin 0\<close> is the positive zero), the negative zero,
  an infinity or a NaN.  Every operation takes the rounding of its format as an argument, applied
  to the exact result when both operands are finite.  The \<open>double\<close> operations of the presenter
  are rounded to binary64 by \<open>round_double\<close>.  The \<open>float\<close> operations of the renderer are taken
  with the rounding \<open>Fin\<close>, that is without rounding: the result of \<open>std::pow\<close> is not fixed to the
  last bit by C++, so the glyph of a cell whose brightness lies at the border between two ramp
  entries is outside what this model decides.  The special values are those of IEEE 754 and of
  \<open>std::pow\<close>.
\<close>

datatype ieee = Fin real | NegZero | PInf | NInf | NaN

fun is_finite :: "ieee \<Rightarrow> bool" where
  "is_finite (Fin r) = True"
| "is_finite NegZero = True"
| "is_finite PInf = False"
| "is_finite NInf = False"
| "is_finite NaN = False"

fun value_of :: "ieee \<Rightarrow> real" where
  "value_of (Fin r) = r"
| "value_of NegZero = 0"
| "value_of PInf = 0"
| "value_of NInf = 0"
| "value_of NaN = 0"

fun sign_bit :: "ieee \<Rightarrow> bool" where
  "sign_bit (Fin r) = (r < 0)"
| "sign_bit NegZero = True"
| "sign_bit PInf = False"
| "sign_bit NInf = True"
| "sign_bit NaN = False"

definition signed_zero :: "bool \<Rightarrow> ieee" where
  "signed_zero neg = (if neg then NegZero else Fin 0)"

definition signed_inf :: "bool \<Rightarrow> ieee" where
  "signed_inf neg = (if neg then NInf else PInf)"

definition ieee_neg :: "ieee \<Rightarrow> ieee" where
  "ieee_neg a =
     (case a of
        Fin r \<Rightarrow> (if r = 0 then NegZero else Fin (- r))
      | NegZero \<Rightarrow> Fin 0
      | PInf \<Rightarrow> NInf
      | NInf \<Rightarrow> PInf
      | NaN \<Rightarrow> NaN)"

definition ieee_add :: "(real \<Rightarrow> ieee) \<Rightarrow> ieee \<Rightarrow> ieee \<Rightarrow> ieee" where
  "ieee_add rnd a b =
     (if a = NaN \<or> b = NaN then NaN
      else if \<not> is_finite a \<and> \<not> is_finite b then (if a = b then a else NaN)
      else if \<not> is_finite a then a
      else if \<not> is_finite b then b
      else if a = NegZero \<and> b = NegZero then NegZero
      else rnd (value_of a + value_of b))"

definition ieee_sub :: "(real \<Rightarrow> ieee) \<Rightarrow> ieee \<Rightarrow> ieee \<Rightarrow> ieee" where
  "ieee_sub rnd a b = ieee_add rnd a (ieee_neg b)"

definition ieee_mul :: "(real \<Rightarrow> ieee) \<Rightarrow> ieee \<Rightarrow> ieee \<Rightarrow> ieee" where
  "ieee_mul rnd a b =
     (if a = NaN \<or> b = NaN then NaN
      else if \<not> is_finite a \<or> \<not> is_finite b then
        (if (is_finite a \<and> value_of a = 0) \<or> (is_finite b \<and> value_of b = 0) then NaN
         else signed_inf (sign_bit a \<noteq> sign_bit b))
      else if value_of a = 0 \<or> value_of b = 0 then signed_zero (sign_bit a \<noteq> sign_bit b)
      else rnd (value_of a * value_of b))"

definition ieee_div :: "(real \<Rightarrow> ieee) \<Rightarrow> ieee \<Rightarrow> ieee \<Rightarrow> ieee" where
  "ieee_div rnd a b =
     (if a = NaN \<or> b = NaN then NaN
      else if \<not> is_finite a then
        (if \<not> is_finite b then NaN else signed_inf (sign_bit a \<noteq> sign_bit b))
      else if \<not> is_finite b then signed_zero (sign_bit a \<noteq> sign_bit b)
      else if value_of b = 0 then
        (if value_of a = 0 then NaN else signed_inf (sign_bit a \<noteq> sign_bit b))
      else if value_of a = 0 then signed_zero (sign_bit a \<noteq> sign_bit b)
      else rnd (value_of a / value_of b))"

text \<open>The comparison \<open>a < b\<close>: false when an operand is a NaN; the two zeros are equal.\<close>

definition ieee_less :: "ieee \<Rightarrow> ieee \<Rightarrow> bool" where
  "ieee_less a b \<longleftrightarrow>
     a \<noteq> NaN \<and> b \<noteq> NaN
     \<and> (if a = NInf then b \<noteq> NInf
        else if b = PInf then a \<noteq> PInf
        else is_finite a \<and> is_finite b \<and> value_of a < value_of b)"

text \<open>\<open>std::clamp(v, lo, hi)\<close> on floating-point values: a NaN passes through.\<close>

definition ieee_clamp :: "ieee \<Rightarrow> ieee \<Rightarrow> ieee \<Rightarrow> ieee" where
  "ieee_clamp v lo hi = (if ieee_less v lo then lo else if ieee_less hi v then hi else v)"

text \<open>
  \<open>std::pow(x, y)\<close> for a finite base \<open>x \<ge> 0\<close>: 1 for the base 1 and for an exponent zero,
  whatever the other operand; at base 0 a negative exponent gives \<open>+inf\<close>; an infinite exponent
  gives 0 or \<open>+inf\<close>; elsewhere the real power.
\<close>

definition ieee_pow :: "real \<Rightarrow> ieee \<Rightarrow> ieee" where
  "ieee_pow x y =
     (if x = 1 then Fin 1
      else case y of
        NaN \<Rightarrow> NaN
      | PInf \<Rightarrow> (if x < 1 then Fin 0 else PInf)
      | NInf \<Rightarrow> (if x < 1 then PInf else Fin 0)
      | NegZero \<Rightarrow> Fin 1
      | Fin e \<Rightarrow>
          (if e = 0 then Fin 1
           else if x = 0 then (if e < 0 then PInf else Fin 0)
           else Fin (x powr e)))"

text \<open>
  \<open>static_cast<int>\<close> of a floating-point value: truncation towards zero; undefined for a NaN,
  an infinity and a value whose truncation is no \<open>int\<close>.
\<close>

definition trunc :: "real \<Rightarrow> int" where
  "trunc v = (if 0 \<le> v then \<lfloor>v\<rfloor> else \<lceil>v\<rceil>)"

definition to_int :: "ieee \<Rightarrow> int option" where
  "to_int a =
     (case a of
        Fin r \<Rightarrow> (if in_int (trunc r) then Some (trunc r) else None)
      | NegZero \<Rightarrow> Some 0
      | PInf \<Rightarrow> None
      | NInf \<Rightarrow> None
      | NaN \<Rightarrow> None)"

text \<open>The nearest integer, the even one of two nearest.\<close>

definition round_even :: "real \<Rightarrow> int" where
  "round_even r =
     (let f = \<lfloor>r\<rfloor>
      in if r - of_int f < 1 / 2 then f
         else if 1 / 2 < r - of_int f then f + 1
         else if even f then f else f + 1)"

text \<open>
  Rounding to binary64, to nearest and ties to even: 53 bits, the exponent of a normal number
  from -1022 to 1023, below that the spacing \<open>2 ^ -1074\<close> of the subnormal numbers, and an
  infinity from \<open>2 ^ 1024\<close> on.
\<close>

definition round_double :: "real \<Rightarrow> ieee" where
  "round_double r =
     (if r = 0 then Fin 0
      else
        (let e = max \<lfloor>log 2 \<bar>r\<bar>\<rfloor> (- 1022);
             q = 2 powr of_int (e - 52);
             m = of_int (round_even (r / q)) * q
         in if 2 ^ 1024 \<le> \<bar>m\<bar> then signed_inf (r < 0)
            else if m = 0 then signed_zero (r < 0)
            else Fin m))"

abbreviation float_add :: "ieee \<Rightarrow> ieee \<Rightarrow> ieee" where
  "float_add \<equiv> ieee_add Fin"

abbreviation float_sub :: "ieee \<Rightarrow> ieee \<Rightarrow> ieee" where
  "float_sub \<equiv> ieee_sub Fin"

abbreviation float_mul :: "ieee \<Rightarrow> ieee \<Rightarrow> ieee" where
  "float_mul \<equiv> ieee_mul Fin"

abbreviation float_div :: "ieee \<Rightarrow> ieee \<Rightarrow> ieee" where
  "float_div \<equiv> ieee_div Fin"

abbreviation double_sub :: "ieee \<Rightarrow> ieee \<Rightarrow> ieee" where
  "double_sub \<equiv> ieee_sub round_double"

abbreviation double_mul :: "ieee \<Rightarrow> ieee \<Rightarrow> ieee" where
  "double_mul \<equiv> ieee_mul round_double"

abbreviation double_div :: "ieee \<Rightarrow> ieee \<Rightarrow> ieee" where
  "double_div \<equiv> ieee_div round_double"

section \<open>color\_lut.hpp\<close>

datatype RenderMode = Gray | ANSI256 | TrueColor

datatype DitherMode = Off | Bayer2 | Bayer4

datatype RGB = RGB (rgb_r: "8 word") (rgb_g: "8 word") (rgb_b: "8 word")

record BayerMatrix =
  bm_size :: int
  thresholds :: "real list"

definition ANSI_BASE_COLORS :: "RGB list" where
  "ANSI_BASE_COLORS =
    [RGB 0 0 0, RGB 205 0 0, RGB 0 205 0, RGB 205 205 0,
     RGB 0 0 238, RGB 205 0 205, RGB 0 205 205, RGB 229 229 229,
     RGB 127 127 127, RGB 255 0 0, RGB 0 255 0, RGB 255 255 0,
     RGB 92 92 255, RGB 255 0 255, RGB 0 255 255, RGB 255 255 255]"

text \<open>One channel of the 6x6x6 cube: \<open>c == 0 ? 0 : 55 + c * 40\<close>.\<close>

definition cube_level :: "nat \<Rightarrow> 8 word" where
  "cube_level c = (if c = 0 then 0 else of_nat (55 + c * 40))"

definition make_xterm_palette :: "RGB list" where
  "make_xterm_palette =
     ANSI_BASE_COLORS
     @ concat (map (\<lambda>cr. concat (map (\<lambda>cg. map (\<lambda>cb.
           RGB (cube_level cr) (cube_level cg) (cube_level cb)) [0..<6]) [0..<6])) [0..<6])
     @ map (\<lambda>i. let val = of_nat (8 + i * 10) in RGB val val val) [0..<24]"

definition xterm_palette :: "RGB list" where
  "xterm_palette = make_xterm_palette"

text \<open>The squared distance computed in the body of the loop of \<open>xterm_index_from_rgb\<close>.\<close>

definition palette_dist :: "8 word \<Rightarrow> 8 word \<Rightarrow> 8 word \<Rightarrow> nat \<Rightarrow> int" where
  "palette_dist r g b i =
     (let p = xterm_palette ! i;
          dr = uint (rgb_r p) - uint r;
          dg = uint (rgb_g p) - uint g;
          db = uint (rgb_b p) - uint b
      in dr * dr + dg * dg + db * db)"

text \<open>The loop \<open>for (int i = 0; i < 256; ++i)\<close> over the pair \<open>(bestIndex, bestDist)\<close>.\<close>

fun xterm_scan :: "8 word \<Rightarrow> 8 word \<Rightarrow> 8 word \<Rightarrow> nat list \<Rightarrow> nat \<times> int \<Rightarrow> nat \<times> int" where
  "xterm_scan r g b [] best = best"
| "xterm_scan r g b (i # rest) (bestIndex, bestDist) =
     (let dist = palette_dist r g b i
      in if dist < bestDist then xterm_scan r g b rest (i, dist)
         else xterm_scan r g b rest (bestIndex, bestDist))"

definition xterm_index_from_rgb :: "8 word \<Rightarrow> 8 word \<Rightarrow> 8 word \<Rightarrow> nat" where
  "xterm_index_from_rgb r g b = fst (xterm_scan r g b [0..<256] (0, 2147483647))"

definition luminance :: "8 word \<Rightarrow> 8 word \<Rightarrow> 8 word \<Rightarrow> real" where
  "luminance r g b = 0.2126 * real (unat r) + 0.7152 * real (unat g) + 0.0722 * real (unat b)"

text \<open>\<open>std::clamp(v, lo, hi)\<close>.\<close>

definition clamp :: "'a::linorder \<Rightarrow> 'a \<Rightarrow> 'a \<Rightarrow> 'a" where
  "clamp v lo hi = (if v < lo then lo else if hi < v then hi else v)"

text \<open>
  \<open>apply_gamma\<close> is called by \<open>sampleCell\<close> with an average of luminances, a finite float that
  is not negative, so the value is a real number here; gamma is whatever the configuration holds.
\<close>

definition apply_gamma :: "real \<Rightarrow> ieee \<Rightarrow> ieee" where
  "apply_gamma v gam =
     (let v1 = clamp (v / 255) 0 1;
          v2 = ieee_pow v1 (float_div (Fin 1) gam)
      in ieee_clamp v2 (Fin 0) (Fin 1))"

definition apply_contrast :: "ieee \<Rightarrow> ieee \<Rightarrow> ieee" where
  "apply_contrast v con =
     (let centered = float_mul (float_sub v (Fin 0.5)) con
      in ieee_clamp (float_add centered (Fin 0.5)) (Fin 0) (Fin 1))"

definition bayer_matrix :: "DitherMode \<Rightarrow> BayerMatrix" where
  "bayer_matrix m =
     (case m of
        Bayer2 \<Rightarrow> \<lparr>bm_size = 2, thresholds = [0 / 4, 2 / 4, 3 / 4, 1 / 4]\<rparr>
      | Bayer4 \<Rightarrow> \<lparr>bm_size = 4, thresholds =
          [0 / 16, 8 / 16, 2 / 16, 10 / 16,
           12 / 16, 4 / 16, 14 / 16, 6 / 16,
           3 / 16, 11 / 16, 1 / 16, 9 / 16,
           15 / 16, 7 / 16, 13 / 16, 5 / 16]\<rparr>
      | Off \<Rightarrow> \<lparr>bm_size = 1, thresholds = [0]\<rparr>)"

definition pack_rgb :: "8 word \<Rightarrow> 8 word \<Rightarrow> 8 word \<Rightarrow> 32 word" where
  "pack_rgb r g b = push_bit 16 (ucast r) OR push_bit 8 (ucast g) OR ucast b"

definition unpack_rgb :: "32 word \<Rightarrow> RGB" where
  "unpack_rgb v = RGB (ucast (drop_bit 16 v AND 0xFF)) (ucast (drop_bit 8 v AND 0xFF)) (ucast (v AND 0xFF))"

section \<open>ascii\_renderer.hpp, ascii\_renderer.cpp\<close>

record RendererConfig =
  mode :: RenderMode
  dither :: DitherMode
  halfBlock :: bool
  gridCols :: int
  gridRows :: int
  gamma :: ieee
  contrast :: ieee

record AsciiCell =
  glyph :: string
  fg :: "32 word"
  bg :: "32 word"

record VideoFrame =
  width :: int
  height :: int
  data :: "8 word list"
  pts :: ieee

record AsciiFrame =
  cols :: int
  rows :: int
  frameHalfBlock :: bool
  framePts :: ieee
  cells :: "AsciiCell list"
  terminalString :: string

text \<open>The members of \<open>AsciiRenderer\<close> (the mutex is the atomicity of each operation below);
  a member \<open>x_\<close> of the source is \<open>m_x\<close> here.\<close>

record AsciiRenderer =
  m_config :: RendererConfig
  m_ramp :: string

definition kRamp :: string where
  "kRamp = ''@%#*+=-:. ''"

definition buildRamp :: "AsciiRenderer \<Rightarrow> AsciiRenderer" where
  "buildRamp rd = rd\<lparr>m_ramp := kRamp\<rparr>"

definition configure :: "RendererConfig \<Rightarrow> AsciiRenderer \<Rightarrow> AsciiRenderer" where
  "configure cfg rd = buildRamp (rd\<lparr>m_config := cfg\<rparr>)"

definition config :: "AsciiRenderer \<Rightarrow> RendererConfig" where
  "config rd = m_config rd"

definition cycleMode :: "AsciiRenderer \<Rightarrow> AsciiRenderer" where
  "cycleMode rd =
     rd\<lparr>m_config := (m_config rd)\<lparr>mode :=
        (case mode (m_config rd) of Gray \<Rightarrow> ANSI256 | ANSI256 \<Rightarrow> TrueColor | TrueColor \<Rightarrow> Gray)\<rparr>\<rparr>"

definition cycleDither :: "AsciiRenderer \<Rightarrow> AsciiRenderer" where
  "cycleDither rd =
     rd\<lparr>m_config := (m_config rd)\<lparr>dither :=
        (case dither (m_config rd) of Off \<Rightarrow> Bayer2 | Bayer2 \<Rightarrow> Bayer4 | Bayer4 \<Rightarrow> Off)\<rparr>\<rparr>"

definition adjustGamma :: "ieee \<Rightarrow> AsciiRenderer \<Rightarrow> AsciiRenderer" where
  "adjustGamma delta rd =
     rd\<lparr>m_config := (m_config rd)\<lparr>gamma :=
        ieee_clamp (float_add (gamma (m_config rd)) delta) (Fin 0.5) (Fin 4.0)\<rparr>\<rparr>"

definition adjustContrast :: "ieee \<Rightarrow> AsciiRenderer \<Rightarrow> AsciiRenderer" where
  "adjustContrast delta rd =
     rd\<lparr>m_config := (m_config rd)\<lparr>contrast :=
        ieee_clamp (float_add (contrast (m_config rd)) delta) (Fin 0.2) (Fin 3.0)\<rparr>\<rparr>"

text \<open>The constructor: default \<open>RendererConfig\<close>, then \<open>buildRamp\<close>.\<close>

definition default_RendererConfig :: RendererConfig where
  "default_RendererConfig =
     \<lparr>mode = Gray, dither = Bayer4, halfBlock = False, gridCols = 120, gridRows = 60,
      gamma = Fin 2.2, contrast = Fin 1.0\<rparr>"

definition new_AsciiRenderer :: AsciiRenderer where
  "new_AsciiRenderer = buildRamp \<lparr>m_config = default_RendererConfig, m_ramp = []\<rparr>"

subsection \<open>sampleCell\<close>

text \<open>
  What stops \<open>sampleCell\<close> or \<open>render\<close>: \<open>resize\<close> throwing on a size that no vector can have,
  and the four kinds of undefined behaviour they can run into.
\<close>

datatype render_error = BadAlloc | DivideByZero | IntOverflow | OutOfBounds | BadConversion

record Accum =
  accumLuma :: real
  accumR :: real
  accumG :: real
  accumB :: real
  count :: int

text \<open>The three bytes at \<open>rgb + off\<close>; outside the buffer the read is undefined.\<close>

definition pixel_at :: "8 word list \<Rightarrow> int \<Rightarrow> (8 word \<times> 8 word \<times> 8 word) option" where
  "pixel_at rgb off =
     (if 0 \<le> off \<and> off + 2 < int (length rgb)
      then Some (rgb ! nat off, rgb ! nat (off + 1), rgb ! nat (off + 2))
      else None)"

text \<open>
  The inner loop \<open>for (int x = 0; x < cellWidth; ++x)\<close>.  The offset \<open>(yy * width + xx) * 3\<close> is
  an \<open>int\<close>.
\<close>

fun sample_cols :: "8 word list \<Rightarrow> int \<Rightarrow> int \<Rightarrow> int \<Rightarrow> nat list \<Rightarrow> Accum \<Rightarrow> Accum option" where
  "sample_cols rgb w startX yy [] acc = Some acc"
| "sample_cols rgb w startX yy (x # xs) acc =
     (let xx = clamp (startX + int x) 0 (w - 1)
      in if \<not> in_int ((yy * w + xx) * 3) then None
         else case pixel_at rgb ((yy * w + xx) * 3) of
           None \<Rightarrow> None
         | Some (p0, p1, p2) \<Rightarrow>
             sample_cols rgb w startX yy xs
               (acc\<lparr>accumLuma := accumLuma acc + luminance p0 p1 p2,
                    accumR := accumR acc + real (unat p0),
                    accumG := accumG acc + real (unat p1),
                    accumB := accumB acc + real (unat p2),
                    count := count acc + 1\<rparr>))"

text \<open>The outer loop \<open>for (int y = 0; y < cellHeight; ++y)\<close>.\<close>

fun sample_rows :: "8 word list \<Rightarrow> int \<Rightarrow> int \<Rightarrow> int \<Rightarrow> int \<Rightarrow> int \<Rightarrow> nat list \<Rightarrow> Accum \<Rightarrow> Accum option" where
  "sample_rows rgb w h startX startY cellWidth [] acc = Some acc"
| "sample_rows rgb w h startX startY cellWidth (y # ys) acc =
     (let yy = clamp (startY + int y) 0 (h - 1)
      in case sample_cols rgb w startX yy [0..<nat cellWidth] acc of
           None \<Rightarrow> None
         | Some acc' \<Rightarrow> sample_rows rgb w h startX startY cellWidth ys acc')"

text \<open>
  \<open>static_cast<uint8_t>\<close> of a float: truncation.  \<open>sampleCell\<close> converts averages of bytes and
  of luminances, which lie between 0 and 255.
\<close>

definition to_uint8 :: "real \<Rightarrow> 8 word" where
  "to_uint8 v = of_int \<lfloor>v\<rfloor>"

text \<open>
  The part of \<open>sampleCell\<close> after the two loops: from the sums to the cell.  \<open>sampleCell\<close> reads
  the member \<open>config_\<close> of the renderer (dither, gamma, contrast, mode), not the snapshot taken by
  \<open>render\<close>.  The sums are finite floats.  The ramp index is a \<open>static_cast<int>\<close>, undefined when
  gamma or contrast has made \<open>normalized\<close> a NaN; \<open>ramp_\<close> holds the ten characters of \<open>kRamp\<close>
  from the constructor on, and with an empty ramp the read \<open>ramp_[rampIndex]\<close> would be outside
  it.
\<close>

definition cell_from_accum :: "AsciiRenderer \<Rightarrow> Accum \<Rightarrow> int \<Rightarrow> int \<Rightarrow> render_error + AsciiCell" where
  "cell_from_accum rd acc row col =
     (let matrix = bayer_matrix (dither (m_config rd));
          avgLuma = accumLuma acc / real_of_int (max 1 (count acc));
          normalized = apply_contrast (apply_gamma avgLuma (gamma (m_config rd)))
                         (contrast (m_config rd))
      in if m_ramp rd = [] then Inl OutOfBounds
         else case to_int (float_add (float_mul normalized (Fin (real (length (m_ramp rd) - 1))))
                             (Fin 0.5)) of
           None \<Rightarrow> Inl BadConversion
         | Some idx \<Rightarrow>
            (let rampIndex = clamp idx 0 (int (length (m_ramp rd)) - 1);
                 threshold = (if bm_size matrix > 1
                              then thresholds matrix !
                                     nat ((row mod bm_size matrix) * bm_size matrix
                                          + (col mod bm_size matrix))
                              else 0);
                 cell = \<lparr>glyph = [m_ramp rd ! nat rampIndex], fg = 0xFFFFFF, bg = 0\<rparr>;
                 avgR = to_uint8 (accumR acc / real_of_int (max 1 (count acc)));
                 avgG = to_uint8 (accumG acc / real_of_int (max 1 (count acc)));
                 avgB = to_uint8 (accumB acc / real_of_int (max 1 (count acc)))
             in Inr
               (if mode (m_config rd) = Gray then
                  (let gray = to_uint8 avgLuma
                   in cell\<lparr>fg := pack_rgb gray gray gray, bg := pack_rgb 0 0 0\<rparr>)
                else if mode (m_config rd) = ANSI256 then
                  (let idx = xterm_index_from_rgb avgR avgG avgB;
                       rgbPalette = xterm_palette ! idx
                   in cell\<lparr>fg := pack_rgb (rgb_r rgbPalette) (rgb_g rgbPalette) (rgb_b rgbPalette),
                          bg := pack_rgb 0 0 0,
                          glyph := (if ieee_less (Fin 1) (float_add normalized (Fin threshold))
                                    then ''#'' else glyph cell)\<rparr>)
                else cell\<lparr>fg := pack_rgb avgR avgG avgB, bg := pack_rgb 0 0 0\<rparr>)))"

definition sampleCell ::
  "AsciiRenderer \<Rightarrow> 8 word list \<Rightarrow> int \<Rightarrow> int \<Rightarrow> int \<Rightarrow> int \<Rightarrow> int \<Rightarrow> int \<Rightarrow> int \<Rightarrow> int
     \<Rightarrow> render_error + AsciiCell" where
  "sampleCell rd rgb w h startX startY cellWidth cellHeight row col =
     (case sample_rows rgb w h startX startY cellWidth [0..<nat cellHeight]
             \<lparr>accumLuma = 0, accumR = 0, accumG = 0, accumB = 0, count = 0\<rparr> of
        None \<Rightarrow> Inl OutOfBounds
      | Some acc \<Rightarrow> cell_from_accum rd acc row col)"

subsection \<open>render\<close>

text \<open>Integer division of C++: the quotient is truncated towards zero.\<close>

definition cdiv :: "int \<Rightarrow> int \<Rightarrow> int" where
  "cdiv a d = sgn a * sgn d * (\<bar>a\<bar> div \<bar>d\<bar>)"

text \<open>
  The operations by which the control thread changes the renderer while \<open>render\<close> runs on the
  ASCII worker thread.
\<close>

datatype mutation =
    Configure RendererConfig
  | CycleMode
  | CycleDither
  | AdjustGamma ieee
  | AdjustContrast ieee

fun apply_mutation :: "mutation \<Rightarrow> AsciiRenderer \<Rightarrow> AsciiRenderer" where
  "apply_mutation (Configure cfg) rd = configure cfg rd"
| "apply_mutation CycleMode rd = cycleMode rd"
| "apply_mutation CycleDither rd = cycleDither rd"
| "apply_mutation (AdjustGamma delta) rd = adjustGamma delta rd"
| "apply_mutation (AdjustContrast delta) rd = adjustContrast delta rd"

definition apply_mutations :: "mutation list \<Rightarrow> AsciiRenderer \<Rightarrow> AsciiRenderer" where
  "apply_mutations ms rd = fold apply_mutation ms rd"

text \<open>The UTF-8 bytes of the lower half block U+2584.\<close>

definition half_block_glyph :: string where
  "half_block_glyph = [CHR 0xE2, CHR 0x96, CHR 0x84]"

text \<open>
  The body of the two nested loops over the grid.  The state is the renderer, the number of
  \<open>sampleCell\<close> calls made so far in this \<open>render\<close>, and the cell vector; \<open>env k\<close> lists the
  operations of the control thread that complete just before the \<open>k\<close>-th call of \<open>sampleCell\<close>
  (\<open>render\<close> holds the mutex only while it copies the configuration).
\<close>

definition render_cell ::
  "(nat \<Rightarrow> mutation list) \<Rightarrow> RendererConfig \<Rightarrow> VideoFrame \<Rightarrow> int \<Rightarrow> int \<Rightarrow> nat \<Rightarrow> nat
     \<Rightarrow> AsciiRenderer \<times> nat \<times> AsciiCell list
     \<Rightarrow> render_error + AsciiRenderer \<times> nat \<times> AsciiCell list" where
  "render_cell env cfg frame cellWidth cellHeight y x st =
     (case st of (rd, k, cs) \<Rightarrow>
       (let startY = (if halfBlock cfg then int y * 2 * cellHeight else int y * cellHeight);
            rd1 = apply_mutations (env k) rd
        in case sampleCell rd1 (data frame) (width frame) (height frame)
                  (int x * cellWidth) startY cellWidth cellHeight (int y) (int x) of
             Inl e \<Rightarrow> Inl e
           | Inr cellTop \<Rightarrow>
               if halfBlock cfg then
                 (let rd2 = apply_mutations (env (k + 1)) rd1
                  in case sampleCell rd2 (data frame) (width frame) (height frame)
                            (int x * cellWidth) (startY + cellHeight) cellWidth cellHeight
                            (int y + 1) (int x) of
                       Inl e \<Rightarrow> Inl e
                     | Inr cellBottom \<Rightarrow>
                         Inr (rd2, k + 2,
                              cs[nat (int y * gridCols cfg + int x) :=
                                   cellTop\<lparr>glyph := half_block_glyph, bg := fg cellTop,
                                           fg := fg cellBottom\<rparr>]))
               else Inr (rd1, k + 1, cs[nat (int y * gridCols cfg + int x) := cellTop])))"

fun cell_cols ::
  "(nat \<Rightarrow> mutation list) \<Rightarrow> RendererConfig \<Rightarrow> VideoFrame \<Rightarrow> int \<Rightarrow> int \<Rightarrow> nat \<Rightarrow> nat list
     \<Rightarrow> AsciiRenderer \<times> nat \<times> AsciiCell list
     \<Rightarrow> render_error + AsciiRenderer \<times> nat \<times> AsciiCell list" where
  "cell_cols env cfg frame cellWidth cellHeight y [] st = Inr st"
| "cell_cols env cfg frame cellWidth cellHeight y (x # xs) st =
     (case render_cell env cfg frame cellWidth cellHeight y x st of
        Inl e \<Rightarrow> Inl e
      | Inr st' \<Rightarrow> cell_cols env cfg frame cellWidth cellHeight y xs st')"

fun cell_rows ::
  "(nat \<Rightarrow> mutation list) \<Rightarrow> RendererConfig \<Rightarrow> VideoFrame \<Rightarrow> int \<Rightarrow> int \<Rightarrow> nat list
     \<Rightarrow> AsciiRenderer \<times> nat \<times> AsciiCell list
     \<Rightarrow> render_error + AsciiRenderer \<times> nat \<times> AsciiCell list" where
  "cell_rows env cfg frame cellWidth cellHeight [] st = Inr st"
| "cell_rows env cfg frame cellWidth cellHeight (y # ys) st =
     (case cell_cols env cfg frame cellWidth cellHeight y [0..<nat (gridCols cfg)] st of
        Inl e \<Rightarrow> Inl e
      | Inr st' \<Rightarrow> cell_rows env cfg frame cellWidth cellHeight ys st')"

subsection \<open>The terminal string\<close>

definition esc :: char where
  "esc = CHR 0x1B"

text \<open>\<open>std::to_string\<close> on the integers met here.\<close>

definition digit_char :: "nat \<Rightarrow> char" where
  "digit_char d = ''0123456789'' ! d"

fun digits :: "nat \<Rightarrow> string" where
  "digits n = (if n < 10 then [digit_char n] else digits (n div 10) @ [digit_char (n mod 10)])"

declare digits.simps [simp del]

definition to_string :: "int \<Rightarrow> string" where
  "to_string i = (if i < 0 then CHR ''-'' # digits (nat (- i)) else digits (nat i))"

record RowState =
  buffer :: string
  currentFg :: "32 word"
  currentBg :: "32 word"
  haveColor :: bool

definition flushTrueColor :: "32 word \<Rightarrow> string \<Rightarrow> string" where
  "flushTrueColor color buf =
     (let rgb = unpack_rgb color
      in buf @ esc # ''[38;2;'' @ to_string (uint (rgb_r rgb)) @ '';'' @ to_string (uint (rgb_g rgb))
           @ '';'' @ to_string (uint (rgb_b rgb)) @ ''m'')"

text \<open>The body of the loop over the cells of one row.\<close>

definition emit_cell :: "RendererConfig \<Rightarrow> AsciiCell \<Rightarrow> RowState \<Rightarrow> RowState" where
  "emit_cell cfg cell st =
     (let st1 =
        (if mode cfg = TrueColor then
           (if \<not> haveColor st \<or> fg cell \<noteq> currentFg st
            then st\<lparr>buffer := flushTrueColor (fg cell) (buffer st), currentFg := fg cell,
                    haveColor := True\<rparr>
            else st)
         else if mode cfg = ANSI256 then
           (let idx = xterm_index_from_rgb (ucast (drop_bit 16 (fg cell) AND 0xFF))
                        (ucast (drop_bit 8 (fg cell) AND 0xFF)) (ucast (fg cell AND 0xFF))
            in st\<lparr>buffer := buffer st @ esc # ''[38;5;'' @ to_string (int idx) @ ''m''\<rparr>)
         else
           (let gray = (ucast (drop_bit 16 (fg cell) AND 0xFF) :: 8 word)
            in st\<lparr>buffer := buffer st @ esc # ''[38;2;'' @ to_string (uint gray) @ '';''
                      @ to_string (uint gray) @ '';'' @ to_string (uint gray) @ ''m''\<rparr>));
          st2 =
        (if halfBlock cfg then
           (if \<not> haveColor st1 \<or> bg cell \<noteq> currentBg st1
            then (let rgb = unpack_rgb (bg cell)
                  in st1\<lparr>buffer := buffer st1 @ esc # ''[48;2;'' @ to_string (uint (rgb_r rgb))
                            @ '';'' @ to_string (uint (rgb_g rgb)) @ '';''
                            @ to_string (uint (rgb_b rgb)) @ ''m'',
                          currentBg := bg cell\<rparr>)
            else st1)
         else st1)
      in st2\<lparr>buffer := buffer st2 @ glyph cell\<rparr>)"

text \<open>
  The cell vector holds \<open>cols * rows\<close> cells and the loops stay below \<open>rows\<close> and \<open>cols\<close>, so
  \<open>cells[y * cols + x]\<close> is inside the vector.
\<close>

fun emit_cols :: "RendererConfig \<Rightarrow> AsciiCell list \<Rightarrow> int \<Rightarrow> nat \<Rightarrow> nat list \<Rightarrow> RowState \<Rightarrow> RowState" where
  "emit_cols cfg cs ncols y [] st = st"
| "emit_cols cfg cs ncols y (x # xs) st =
     emit_cols cfg cs ncols y xs (emit_cell cfg (cs ! nat (int y * ncols + int x)) st)"

fun emit_rows :: "RendererConfig \<Rightarrow> AsciiCell list \<Rightarrow> int \<Rightarrow> nat list \<Rightarrow> string \<Rightarrow> string" where
  "emit_rows cfg cs ncols [] buf = buf"
| "emit_rows cfg cs ncols (y # ys) buf =
     (let st = emit_cols cfg cs ncols y [0..<nat ncols]
                 \<lparr>buffer = buf, currentFg = 0xFFFFFFFF, currentBg = 0, haveColor = False\<rparr>
      in emit_rows cfg cs ncols ys (buffer st @ esc # ''[0m'' @ [CHR 0x0D, CHR 0x0A]))"

definition terminal_string :: "RendererConfig \<Rightarrow> int \<Rightarrow> int \<Rightarrow> AsciiCell list \<Rightarrow> string" where
  "terminal_string cfg ncols nrows cs = emit_rows cfg cs ncols [0..<nat nrows] (esc # ''[H'')"

definition default_AsciiCell :: AsciiCell where
  "default_AsciiCell = \<lparr>glyph = '' '', fg = 0xFFFFFF, bg = 0x000000\<rparr>"

text \<open>
  \<open>render\<close> with the control thread's operations interleaved as \<open>env\<close> says.  The products
  \<open>cols * rows\<close>, \<open>gridRows * 2\<close> and \<open>cols * rows * 8\<close> (the argument of \<open>reserve\<close>) are \<open>int\<close>
  products; a negative \<open>cols * rows\<close> makes \<open>resize\<close> throw; a zero divisor is a division by
  zero.  Inside the loops \<open>x < cols\<close> and \<open>y < rows\<close>, so \<open>x * cellWidth\<close> and the start rows stay
  below the larger of the grid and the frame, and \<open>y * cols + x\<close> below \<open>cols * rows\<close>.
  Whether the host has the memory for the cells and the string is not part of the model.
\<close>

definition render_with ::
  "(nat \<Rightarrow> mutation list) \<Rightarrow> AsciiRenderer \<Rightarrow> VideoFrame \<Rightarrow> render_error + AsciiRenderer \<times> AsciiFrame" where
  "render_with env rd frame =
     (let cfg = config rd;
          ncols = gridCols cfg;
          nrows = gridRows cfg;
          vrows = (if halfBlock cfg then gridRows cfg * 2 else gridRows cfg)
      in if \<not> in_int (ncols * nrows) then Inl IntOverflow
         else if ncols * nrows < 0 then Inl BadAlloc
         else if \<not> in_int vrows then Inl IntOverflow
         else if ncols = 0 \<or> vrows = 0 then Inl DivideByZero
         else
           (let cellWidth = max 1 (cdiv (width frame) ncols);
                cellHeight = max 1 (cdiv (height frame) vrows)
            in case cell_rows env cfg frame cellWidth cellHeight [0..<nat nrows]
                      (rd, 0, replicate (nat (ncols * nrows)) default_AsciiCell) of
                 Inl e \<Rightarrow> Inl e
               | Inr (rd', k, cs) \<Rightarrow>
                   if \<not> in_int (ncols * nrows * 8) then Inl IntOverflow
                   else
                     Inr (rd', \<lparr>cols = ncols, rows = nrows, frameHalfBlock = halfBlock cfg,
                               framePts = pts frame, cells = cs,
                               terminalString = terminal_string cfg ncols nrows cs\<rparr>)))"

text \<open>\<open>render\<close> when no other thread touches the renderer.\<close>

definition render :: "AsciiRenderer \<Rightarrow> VideoFrame \<Rightarrow> render_error + AsciiFrame" where
  "render rd frame =
     (case render_with (\<lambda>k. []) rd frame of Inl e \<Rightarrow> Inl e | Inr (rd', af) \<Rightarrow> Inr af)"

section \<open>audio\_player.hpp, audio\_player.cpp\<close>

record AudioConfig =
  enabled :: bool
  volume :: real

record AudioFrame =
  samples :: "16 word list"
  sampleRate :: int
  channels :: int
  audioPts :: real

text \<open>
  The members of \<open>AudioPlayer\<close> and the two fields of the miniaudio device that the class reads:
  \<open>device_.sampleRate\<close> and \<open>device_.playback.channels\<close>.
\<close>

record AudioPlayer =
  m_audioConfig :: AudioConfig
  m_queue :: "16 word list"
  m_samplesPlayed :: "64 word"
  device_sampleRate :: nat
  device_channels :: nat

definition enqueue :: "AudioFrame \<Rightarrow> AudioPlayer \<Rightarrow> AudioPlayer" where
  "enqueue frame ap =
     (if \<not> enabled (m_audioConfig ap) then ap
      else ap\<lparr>m_queue := m_queue ap @ samples frame\<rparr>)"

definition playbackTime :: "AudioPlayer \<Rightarrow> real" where
  "playbackTime ap =
     (if \<not> enabled (m_audioConfig ap) then 0
      else real (unat (m_samplesPlayed ap)) / real (device_sampleRate ap))"

definition setVolume :: "real \<Rightarrow> AudioPlayer \<Rightarrow> AudioPlayer" where
  "setVolume v ap = ap\<lparr>m_audioConfig := (m_audioConfig ap)\<lparr>volume := v\<rparr>\<rparr>"

text \<open>
  The device callback for \<open>frameCount\<close> frames: the samples written to \<open>output\<close> and the player
  afterwards.  With no channel the division \<open>samplesAvailable / channels\<close> is a division by zero.
\<close>

definition onData :: "nat \<Rightarrow> AudioPlayer \<Rightarrow> (real list \<times> AudioPlayer) option" where
  "onData frameCount ap =
     (let samplesRequested = frameCount * device_channels ap
      in if m_queue ap = [] then Some (replicate samplesRequested 0, ap)
         else
           (let samplesAvailable = min (length (m_queue ap)) samplesRequested;
                temp = map (\<lambda>s. real_of_int (sint s) / 32768 * volume (m_audioConfig ap))
                         (take samplesAvailable (m_queue ap));
                output = temp @ replicate (samplesRequested - samplesAvailable) 0
            in if device_channels ap = 0 then None
               else Some (output,
                          ap\<lparr>m_queue := drop samplesAvailable (m_queue ap),
                             m_samplesPlayed := m_samplesPlayed ap
                                + of_nat (samplesAvailable div device_channels ap)\<rparr>)))"

section \<open>decoder.cpp and pipeline.cpp: the video queues\<close>

definition kMaxVideoQueue :: nat where
  "kMaxVideoQueue = 8"

definition kMaxAudioQueue :: nat where
  "kMaxAudioQueue = 32"

text \<open>
  A decoded frame passes through two queues before the ASCII worker takes it:
  \<open>Decoder::videoQueue_\<close>, filled by \<open>Decoder::pushVideoFrame\<close>, and \<open>Pipeline::videoQueue_\<close>, into
  which \<open>Pipeline::decodeThread\<close> moves every frame it pops from the decoder.
\<close>

record 'f VideoPath =
  decoder_videoQueue :: "'f list"
  decoder_running :: bool
  decoder_finished :: bool
  stats_videoFrames :: nat
  pipeline_videoQueue :: "'f list"
  pipeline_running :: bool

text \<open>
  An operation returns \<open>None\<close> while its thread is blocked in the wait of a condition variable.
  \<open>pushVideoFrame\<close> waits for \<open>videoQueue_.size() < kMaxVideoQueue || !running_\<close>.
\<close>

definition pushVideoFrame :: "'f \<Rightarrow> 'f VideoPath \<Rightarrow> 'f VideoPath option" where
  "pushVideoFrame frame s =
     (if length (decoder_videoQueue s) < kMaxVideoQueue \<or> \<not> decoder_running s then
        (if \<not> decoder_running s then Some s
         else Some (s\<lparr>decoder_videoQueue := decoder_videoQueue s @ [frame],
                      stats_videoFrames := stats_videoFrames s + 1\<rparr>))
      else None)"

text \<open>\<open>popVideoFrame\<close> waits for \<open>!videoQueue_.empty() || finished_\<close>; the result is the frame, if any.\<close>

definition popVideoFrame :: "'f VideoPath \<Rightarrow> ('f option \<times> 'f VideoPath) option" where
  "popVideoFrame s =
     (if decoder_videoQueue s \<noteq> [] \<or> decoder_finished s then
        (case decoder_videoQueue s of
           [] \<Rightarrow> Some (None, s)
         | frame # rest \<Rightarrow> Some (Some frame, s\<lparr>decoder_videoQueue := rest\<rparr>))
      else None)"

text \<open>One turn of the loop of \<open>Pipeline::decodeThread\<close>: pop from the decoder, push unconditionally.\<close>

definition decodeThread_step :: "'f VideoPath \<Rightarrow> 'f VideoPath option" where
  "decodeThread_step s =
     (if \<not> pipeline_running s then Some s
      else case popVideoFrame s of
             None \<Rightarrow> None
           | Some (None, s') \<Rightarrow> Some s'
           | Some (Some frame, s') \<Rightarrow>
               Some (s'\<lparr>pipeline_videoQueue := pipeline_videoQueue s' @ [frame]\<rparr>))"

text \<open>
  The head of one turn of \<open>Pipeline::asciiThread\<close>: wait for \<open>!videoQueue_.empty() || !running_\<close>,
  leave when stopped and empty, else take the front frame.
\<close>

definition asciiThread_pop :: "'f VideoPath \<Rightarrow> ('f option \<times> 'f VideoPath) option" where
  "asciiThread_pop s =
     (if \<not> pipeline_running s then Some (None, s)
      else if pipeline_videoQueue s \<noteq> [] \<or> \<not> pipeline_running s then
        (case pipeline_videoQueue s of
           [] \<Rightarrow> Some (None, s)
         | frame # rest \<Rightarrow> Some (Some frame, s\<lparr>pipeline_videoQueue := rest\<rparr>))
      else None)"

datatype 'f path_action = DecoderPush 'f | DecodeThread | AsciiThread

definition path_step :: "'f path_action \<Rightarrow> 'f VideoPath \<Rightarrow> 'f VideoPath option" where
  "path_step a s =
     (case a of
        DecoderPush frame \<Rightarrow> pushVideoFrame frame s
      | DecodeThread \<Rightarrow> decodeThread_step s
      | AsciiThread \<Rightarrow> map_option snd (asciiThread_pop s))"

text \<open>A schedule of thread steps; a step of a blocked thread is not part of any run.\<close>

fun path_run :: "'f path_action list \<Rightarrow> 'f VideoPath \<Rightarrow> 'f VideoPath option" where
  "path_run [] s = Some s"
| "path_run (a # as) s = (case path_step a s of None \<Rightarrow> None | Some s' \<Rightarrow> path_run as s')"

text \<open>The state when \<open>Pipeline::run\<close> has started the decoder and the workers.\<close>

definition path_start :: "'f VideoPath" where
  "path_start =
     \<lparr>decoder_videoQueue = [], decoder_running = True, decoder_finished = False,
      stats_videoFrames = 0, pipeline_videoQueue = [], pipeline_running = True\<rparr>"

text \<open>The frames decoded and not yet taken by the ASCII worker.\<close>

definition buffered_frames :: "'f VideoPath \<Rightarrow> nat" where
  "buffered_frames s = length (decoder_videoQueue s) + length (pipeline_videoQueue s)"

section \<open>pipeline.cpp: the presenter\<close>

record PipelineConfig =
  audio_enabled :: bool
  exportEnabled :: bool
  targetFps :: ieee

datatype presenter_event =
    SleepMilliseconds int
  | SleepSeconds ieee
  | Present AsciiFrame
  | WriteFrame AsciiFrame

record Presenter =
  m_renderedFrames :: "64 word"
  m_droppedFrames :: "64 word"
  events :: "presenter_event list"

text \<open>
  The \<open>double\<close> that \<open>AudioPlayer::playbackTime\<close> returns: the two conversions to \<open>double\<close> and
  the division are rounded, and a device whose sample rate is 0 gives a NaN or an infinity.
\<close>

definition playbackTime_double :: "AudioPlayer \<Rightarrow> ieee" where
  "playbackTime_double ap =
     (if \<not> enabled (m_audioConfig ap) then Fin 0
      else double_div (round_double (real (unat (m_samplesPlayed ap))))
             (round_double (real (device_sampleRate ap))))"

text \<open>
  One turn of the loop of \<open>Pipeline::renderThread\<close> from the test of \<open>exportEnabled\<close> on, for a
  popped frame while running and not paused.  \<open>ap\<close> is the audio player whose clock is read,
  \<open>elapsed\<close> the seconds of the steady clock since the thread started.  The sleeps, the frames
  handed to the terminal and those handed to the exporter are recorded in \<open>events\<close>.  The
  literals \<open>0.01\<close> and \<open>0.05\<close> are the doubles nearest to them.  The result is \<open>None\<close> when
  \<open>static_cast<int>(diff * 1000)\<close> is undefined.
\<close>

definition renderThread_step ::
  "PipelineConfig \<Rightarrow> AudioPlayer \<Rightarrow> ieee \<Rightarrow> AsciiFrame \<Rightarrow> Presenter \<Rightarrow> Presenter option" where
  "renderThread_step cfg ap elapsed frame st =
     (if exportEnabled cfg then
        Some (st\<lparr>events := events st @ [WriteFrame frame],
                 m_renderedFrames := m_renderedFrames st + 1\<rparr>)
      else
        (let target = (if ieee_less (Fin 0) (targetFps cfg)
                       then double_div (round_double (real (unat (m_renderedFrames st))))
                              (targetFps cfg)
                       else framePts frame)
         in if audio_enabled cfg then
              (let audioClock = playbackTime_double ap;
                   diff = double_sub target audioClock
               in if ieee_less (round_double 0.01) diff then
                    (case to_int (double_mul diff (Fin 1000)) of
                       None \<Rightarrow> None
                     | Some ms \<Rightarrow>
                         Some (st\<lparr>events := events st @ [SleepMilliseconds ms, Present frame],
                                  m_renderedFrames := m_renderedFrames st + 1\<rparr>))
                  else if ieee_less diff (ieee_neg (round_double 0.05)) then
                    Some (st\<lparr>m_droppedFrames := m_droppedFrames st + 1\<rparr>)
                  else
                    Some (st\<lparr>events := events st @ [Present frame],
                             m_renderedFrames := m_renderedFrames st + 1\<rparr>))
            else
              (let diff = double_sub target elapsed
               in if ieee_less (Fin 0) diff then
                    Some (st\<lparr>events := events st @ [SleepSeconds diff, Present frame],
                             m_renderedFrames := m_renderedFrames st + 1\<rparr>)
                  else
                    Some (st\<lparr>events := events st @ [Present frame],
                             m_renderedFrames := m_renderedFrames st + 1\<rparr>))))"

section \<open>exporter.cpp: blitAscii\<close>

text \<open>
  The header \<open>tiny_font8x16.hpp\<close> is not part of the sources at hand, so the font is a parameter:
  its two dimensions and \<open>blit_glyph\<close>, given as the glyph buffer it leaves behind when called on a
  glyph buffer, the row length, a character and the two colours.
\<close>

record Font =
  glyph_width :: int
  glyph_height :: int
  blit_glyph :: "32 word list \<Rightarrow> int \<Rightarrow> char \<Rightarrow> 32 word \<Rightarrow> 32 word \<Rightarrow> 32 word list"

text \<open>
  The members of \<open>Exporter\<close> read by \<open>writeFrame\<close> and \<open>blitAscii\<close>; \<open>rgbFrame_width\<close> and
  \<open>rgbFrame_height\<close> are \<open>rgbFrame_->width\<close> and \<open>rgbFrame_->height\<close>.
\<close>

record Exporter =
  rgbFrame_width :: int
  rgbFrame_height :: int
  m_glyphW :: int
  m_glyphH :: int

text \<open>The fields of \<open>ExportConfig\<close> that fix the geometry of the exported image.\<close>

record ExportConfig =
  export_gridCols :: int
  export_gridRows :: int
  fontW :: int
  fontH :: int

text \<open>
  \<open>Exporter::open\<close> and \<open>initializeEncoder\<close>, as far as the geometry goes: the glyph cell is at
  least 4x8 pixels and the image is the grid times the glyph cell, two \<open>int\<close> products.  Whether
  the encoder and the output file open is outside the model.
\<close>

definition exporter_open :: "ExportConfig \<Rightarrow> Exporter option" where
  "exporter_open cfg =
     (let glyphW = max 4 (fontW cfg);
          glyphH = max 8 (fontH cfg)
      in if \<not> in_int (export_gridCols cfg * glyphW) \<or> \<not> in_int (export_gridRows cfg * glyphH)
         then None
         else Some \<lparr>rgbFrame_width = export_gridCols cfg * glyphW,
                     rgbFrame_height = export_gridRows cfg * glyphH,
                     m_glyphW = glyphW, m_glyphH = glyphH\<rparr>)"

text \<open>
  The value of a \<open>char\<close> in a comparison: whether \<open>char\<close> is signed is up to the platform;
  a signed \<open>char\<close> reads the bytes from 128 on as negative numbers.
\<close>

definition char_value :: "bool \<Rightarrow> char \<Rightarrow> int" where
  "char_value char_signed c =
     (let v = int (of_char c)
      in if char_signed \<and> 128 \<le> v then v - 256 else v)"

text \<open>The character that \<open>blitAscii\<close> hands to \<open>blit_glyph\<close> for a cell.\<close>

definition export_glyph :: "bool \<Rightarrow> AsciiCell \<Rightarrow> char" where
  "export_glyph char_signed cell =
     (let g = (if glyph cell = [] then CHR '' '' else hd (glyph cell))
      in if char_value char_signed g < 32 \<or> char_value char_signed g > 126 then CHR ''#'' else g)"

text \<open>Reads and writes of a vector by an \<open>int\<close> index; outside the vector they are undefined.\<close>

definition vec_get :: "'a list \<Rightarrow> int \<Rightarrow> 'a option" where
  "vec_get xs i = (if 0 \<le> i \<and> i < int (length xs) then Some (xs ! nat i) else None)"

definition vec_set :: "'a list \<Rightarrow> int \<Rightarrow> 'a \<Rightarrow> 'a list option" where
  "vec_set xs i v = (if 0 \<le> i \<and> i < int (length xs) then Some (xs[nat i := v]) else None)"

text \<open>The loop over \<open>xx\<close>: one row of the scaled glyph.\<close>

fun blit_pixel_cols ::
  "Font \<Rightarrow> Exporter \<Rightarrow> 32 word list \<Rightarrow> int \<Rightarrow> int \<Rightarrow> int \<Rightarrow> int \<Rightarrow> nat list \<Rightarrow> 32 word list
     \<Rightarrow> 32 word list option" where
  "blit_pixel_cols font ex glyphBuffer baseX baseY yy srcY [] buf = Some buf"
| "blit_pixel_cols font ex glyphBuffer baseX baseY yy srcY (xx # xxs) buf =
     (let srcX = cdiv (int xx * glyph_width font) (m_glyphW ex)
      in case vec_get glyphBuffer (srcY * glyph_width font + srcX) of
           None \<Rightarrow> None
         | Some px \<Rightarrow>
            (case vec_set buf ((baseY + yy) * rgbFrame_width ex + (baseX + int xx)) px of
               None \<Rightarrow> None
             | Some buf' \<Rightarrow> blit_pixel_cols font ex glyphBuffer baseX baseY yy srcY xxs buf'))"

text \<open>The loop over \<open>yy\<close>.\<close>

fun blit_pixel_rows ::
  "Font \<Rightarrow> Exporter \<Rightarrow> 32 word list \<Rightarrow> int \<Rightarrow> int \<Rightarrow> nat list \<Rightarrow> 32 word list
     \<Rightarrow> 32 word list option" where
  "blit_pixel_rows font ex glyphBuffer baseX baseY [] buf = Some buf"
| "blit_pixel_rows font ex glyphBuffer baseX baseY (yy # yys) buf =
     (let srcY = cdiv (int yy * glyph_height font) (m_glyphH ex)
      in case blit_pixel_cols font ex glyphBuffer baseX baseY (int yy) srcY
                [0..<nat (m_glyphW ex)] buf of
           None \<Rightarrow> None
         | Some buf' \<Rightarrow> blit_pixel_rows font ex glyphBuffer baseX baseY yys buf')"

text \<open>The body of the loops over the cells; the state is the glyph buffer and the image.\<close>

definition blit_cell ::
  "Font \<Rightarrow> bool \<Rightarrow> Exporter \<Rightarrow> AsciiFrame \<Rightarrow> nat \<Rightarrow> nat \<Rightarrow> 32 word list \<times> 32 word list
     \<Rightarrow> (32 word list \<times> 32 word list) option" where
  "blit_cell font char_signed ex frame y x st =
     (case st of (glyphBuffer, buf) \<Rightarrow>
        (case vec_get (cells frame) (int y * cols frame + int x) of
           None \<Rightarrow> None
         | Some cell \<Rightarrow>
            (let glyphBuffer' = blit_glyph font glyphBuffer (glyph_width font)
                                  (export_glyph char_signed cell) (fg cell) (bg cell);
                 baseX = int x * m_glyphW ex;
                 baseY = int y * m_glyphH ex
             in case blit_pixel_rows font ex glyphBuffer' baseX baseY [0..<nat (m_glyphH ex)] buf of
                  None \<Rightarrow> None
                | Some buf' \<Rightarrow> Some (glyphBuffer', buf'))))"

fun blit_cols ::
  "Font \<Rightarrow> bool \<Rightarrow> Exporter \<Rightarrow> AsciiFrame \<Rightarrow> nat \<Rightarrow> nat list \<Rightarrow> 32 word list \<times> 32 word list
     \<Rightarrow> (32 word list \<times> 32 word list) option" where
  "blit_cols font char_signed ex frame y [] st = Some st"
| "blit_cols font char_signed ex frame y (x # xs) st =
     (case blit_cell font char_signed ex frame y x st of
        None \<Rightarrow> None
      | Some st' \<Rightarrow> blit_cols font char_signed ex frame y xs st')"

fun blit_rows ::
  "Font \<Rightarrow> bool \<Rightarrow> Exporter \<Rightarrow> AsciiFrame \<Rightarrow> nat list \<Rightarrow> 32 word list \<times> 32 word list
     \<Rightarrow> (32 word list \<times> 32 word list) option" where
  "blit_rows font char_signed ex frame [] st = Some st"
| "blit_rows font char_signed ex frame (y # ys) st =
     (case blit_cols font char_signed ex frame y [0..<nat (cols frame)] st of
        None \<Rightarrow> None
      | Some st' \<Rightarrow> blit_rows font char_signed ex frame ys st')"

text \<open>
  \<open>blitAscii\<close>: the image buffer afterwards.  The glyph buffer starts as
  \<open>glyph_width * glyph_height\<close> zeros.
\<close>

definition blitAscii ::
  "Font \<Rightarrow> bool \<Rightarrow> Exporter \<Rightarrow> AsciiFrame \<Rightarrow> 32 word list \<Rightarrow> 32 word list option" where
  "blitAscii font char_signed ex frame buf =
     map_option snd
       (blit_rows font char_signed ex frame [0..<nat (rows frame)]
          (replicate (nat (glyph_width font * glyph_height font)) 0, buf))"

text \<open>
  The pixel buffer that \<open>writeFrame\<close> copies into the RGB frame of the encoder: a vector of
  \<open>width * height\<close> zeros, an \<open>int\<close> product, filled by \<open>blitAscii\<close>.
\<close>

definition writeFrame_buffer :: "Font \<Rightarrow> bool \<Rightarrow> Exporter \<Rightarrow> AsciiFrame \<Rightarrow> 32 word list option" where
  "writeFrame_buffer font char_signed ex frame =
     (if \<not> in_int (rgbFrame_width ex * rgbFrame_height ex)
          \<or> rgbFrame_width ex * rgbFrame_height ex < 0
      then None
      else blitAscii font char_signed ex frame
             (replicate (nat (rgbFrame_width ex * rgbFrame_height ex)) 0))"

section \<open>main.cpp and the control thread: where the renderer configuration comes from\<close>

text \<open>The options of \<open>parseArgs\<close> that reach the renderer, after \<open>std::stof\<close> and \<open>parseDimension\<close>.\<close>

record CommandLineOptions =
  opt_mode :: RenderMode
  opt_grid :: "(int \<times> int) option"
  opt_halfblock :: bool
  opt_dither :: DitherMode
  opt_gamma :: ieee
  opt_contrast :: ieee

text \<open>\<open>pipelineCfg.renderer\<close> as \<open>main\<close> fills it.\<close>

definition main_renderer_config :: "CommandLineOptions \<Rightarrow> RendererConfig" where
  "main_renderer_config opts =
     (let c = default_RendererConfig\<lparr>mode := opt_mode opts, dither := opt_dither opts,
                halfBlock := opt_halfblock opts, gamma := opt_gamma opts,
                contrast := opt_contrast opts\<rparr>
      in case opt_grid opts of
           None \<Rightarrow> c
         | Some (w, h) \<Rightarrow> c\<lparr>gridCols := w, gridRows := h\<rparr>)"

text \<open>The renderer after \<open>Pipeline::initialize\<close>: \<open>renderer_.configure(config.renderer)\<close>.\<close>

definition initialize_renderer :: "CommandLineOptions \<Rightarrow> AsciiRenderer" where
  "initialize_renderer opts = configure (main_renderer_config opts) new_AsciiRenderer"

text \<open>The effect of one key of \<open>Pipeline::controlThread\<close> on the renderer.\<close>

definition control_key :: "char \<Rightarrow> AsciiRenderer \<Rightarrow> AsciiRenderer" where
  "control_key key rd =
     (if key = CHR ''c'' \<or> key = CHR ''C'' then cycleMode rd
      else if key = CHR ''d'' \<or> key = CHR ''D'' then cycleDither rd
      else if key = CHR ''g'' then adjustGamma (Fin (- 0.1)) rd
      else if key = CHR ''G'' then adjustGamma (Fin 0.1) rd
      else if key = CHR ''b'' then adjustContrast (Fin (- 0.1)) rd
      else if key = CHR ''B'' then adjustContrast (Fin 0.1) rd
      else if key = CHR ''1'' then configure ((config rd)\<lparr>mode := Gray\<rparr>) rd
      else if key = CHR ''2'' then configure ((config rd)\<lparr>mode := ANSI256\<rparr>) rd
      else if key = CHR ''3'' then configure ((config rd)\<lparr>mode := TrueColor\<rparr>) rd
      else if key = CHR ''r'' \<or> key = CHR ''R'' then configure (config rd) rd
      else rd)"

text \<open>The keys read by the control thread, in order; \<open>q\<close> ends the loop.\<close>

fun controlThread :: "char list \<Rightarrow> AsciiRenderer \<Rightarrow> AsciiRenderer" where
  "controlThread [] rd = rd"
| "controlThread (key # keys) rd =
     (if key = CHR ''q'' \<or> key = CHR ''Q'' then rd else controlThread keys (control_key key rd))"

section \<open>Auxiliary functions of the proofs\<close>

text \<open>
  The loop of \<open>xterm_index_from_rgb\<close> run along a list of palette entries instead of along
  indices; \<open>xterm_scan_palette\<close> below shows that both compute the same pair.
\<close>

fun scan_list :: "8 word \<Rightarrow> 8 word \<Rightarrow> 8 word \<Rightarrow> RGB list \<Rightarrow> nat \<Rightarrow> nat \<times> int \<Rightarrow> nat \<times> int" where
  "scan_list r g b [] i best = best"
| "scan_list r g b (p # ps) i (bestIndex, bestDist) =
     (let dist = (uint (rgb_r p) - uint r) * (uint (rgb_r p) - uint r)
               + (uint (rgb_g p) - uint g) * (uint (rgb_g p) - uint g)
               + (uint (rgb_b p) - uint b) * (uint (rgb_b p) - uint b)
      in scan_list r g b ps (Suc i) (if dist < bestDist then (i, dist) else (bestIndex, bestDist)))"

text \<open>A colour as one integer, and the positions of a list whose value occurred before.\<close>

definition rgb_key :: "RGB \<Rightarrow> int" where
  "rgb_key p = uint (rgb_r p) * 65536 + uint (rgb_g p) * 256 + uint (rgb_b p)"

fun repeats :: "int list \<Rightarrow> int list \<Rightarrow> nat \<Rightarrow> nat list" where
  "repeats seen [] i = []"
| "repeats seen (k # ks) i =
     (if k \<in> set seen then i # repeats (k # seen) ks (Suc i) else repeats (k # seen) ks (Suc i))"

text \<open>The ranges that the specification gives for gamma and contrast; a NaN and the infinities
  lie in no range.\<close>

definition in_range :: "ieee \<Rightarrow> real \<Rightarrow> real \<Rightarrow> bool" where
  "in_range v lo hi \<longleftrightarrow> is_finite v \<and> lo \<le> value_of v \<and> value_of v \<le> hi"

definition config_in_bounds :: "RendererConfig \<Rightarrow> bool" where
  "config_in_bounds cfg \<longleftrightarrow> in_range (gamma cfg) 0.5 4.0 \<and> in_range (contrast cfg) 0.2 3.0"

text \<open>Whether a byte string contains a fragment (\<open>std::string::find\<close> finds it).\<close>

fun starts_with :: "string \<Rightarrow> string \<Rightarrow> bool" where
  "starts_with s [] = True"
| "starts_with [] (c # frag) = False"
| "starts_with (d # s) (c # frag) = (d = c \<and> starts_with s frag)"

fun contains_fragment :: "string \<Rightarrow> string \<Rightarrow> bool" where
  "contains_fragment [] frag = (frag = [])"
| "contains_fragment (d # s) frag = (starts_with (d # s) frag \<or> contains_fragment s frag)"

text \<open>A well-formed RGB24 frame all of whose pixels have one colour; its size in bytes is an
  \<open>int\<close>, as the offsets of \<open>sampleCell\<close> are.\<close>

definition uniform_frame :: "VideoFrame \<Rightarrow> 8 word \<Rightarrow> 8 word \<Rightarrow> 8 word \<Rightarrow> bool" where
  "uniform_frame f p0 p1 p2 \<longleftrightarrow>
     0 < width f \<and> 0 < height f \<and> width f * height f * 3 \<le> 2147483647
     \<and> data f = concat (replicate (nat (width f * height f)) [p0, p1, p2])"

text \<open>The sums of \<open>sampleCell\<close> after one pixel of the given colour.\<close>

definition one_pixel_accum :: "8 word \<Rightarrow> 8 word \<Rightarrow> 8 word \<Rightarrow> Accum" where
  "one_pixel_accum p0 p1 p2 =
     \<lparr>accumLuma = luminance p0 p1 p2, accumR = real (unat p0), accumG = real (unat p1),
      accumB = real (unat p2), count = 1\<rparr>"


text \<open>
  The cell that \<open>sampleCell\<close> builds from the sums when \<open>normalized\<close> is the finite value \<open>n\<close>:
  the conversion to the ramp index is defined then.
\<close>

definition cell_of_normalized :: "AsciiRenderer \<Rightarrow> real \<Rightarrow> Accum \<Rightarrow> int \<Rightarrow> int \<Rightarrow> AsciiCell" where
  "cell_of_normalized rd n acc row col =
     (let matrix = bayer_matrix (dither (m_config rd));
          avgLuma = accumLuma acc / real_of_int (max 1 (count acc));
          rampIndex = clamp \<lfloor>n * real (length (m_ramp rd) - 1) + 0.5\<rfloor>
                        0 (int (length (m_ramp rd)) - 1);
          threshold = (if bm_size matrix > 1
                       then thresholds matrix !
                              nat ((row mod bm_size matrix) * bm_size matrix + (col mod bm_size matrix))
                       else 0);
          cell = \<lparr>glyph = [m_ramp rd ! nat rampIndex], fg = 0xFFFFFF, bg = 0\<rparr>;
          avgR = to_uint8 (accumR acc / real_of_int (max 1 (count acc)));
          avgG = to_uint8 (accumG acc / real_of_int (max 1 (count acc)));
          avgB = to_uint8 (accumB acc / real_of_int (max 1 (count acc)))
      in if mode (m_config rd) = Gray then
           (let gray = to_uint8 avgLuma
            in cell\<lparr>fg := pack_rgb gray gray gray, bg := pack_rgb 0 0 0\<rparr>)
         else if mode (m_config rd) = ANSI256 then
           (let idx = xterm_index_from_rgb avgR avgG avgB;
                rgbPalette = xterm_palette ! idx
            in cell\<lparr>fg := pack_rgb (rgb_r rgbPalette) (rgb_g rgbPalette) (rgb_b rgbPalette),
                   bg := pack_rgb 0 0 0,
                   glyph := (if 1 < n + threshold then ''#'' else glyph cell)\<rparr>)
         else cell\<lparr>fg := pack_rgb avgR avgG avgB, bg := pack_rgb 0 0 0\<rparr>)"

text \<open>\<open>normalized\<close> as \<open>sampleCell\<close> computes it from the sums.\<close>

definition normalized_of :: "AsciiRenderer \<Rightarrow> Accum \<Rightarrow> ieee" where
  "normalized_of rd acc =
     apply_contrast (apply_gamma (accumLuma acc / real_of_int (max 1 (count acc)))
                       (gamma (m_config rd))) (contrast (m_config rd))"

text \<open>
  The index in the image of pixel \<open>(xx, yy)\<close> of the cell in row \<open>y\<close> and column \<open>x\<close>, and the
  index in the glyph buffer that \<open>blitAscii\<close> copies there.
\<close>

definition pixel_pos :: "Exporter \<Rightarrow> nat \<Rightarrow> nat \<Rightarrow> nat \<Rightarrow> nat \<Rightarrow> int" where
  "pixel_pos ex y x yy xx =
     (int y * m_glyphH ex + int yy) * rgbFrame_width ex + (int x * m_glyphW ex + int xx)"

definition glyph_src :: "Font \<Rightarrow> Exporter \<Rightarrow> nat \<Rightarrow> nat \<Rightarrow> int" where
  "glyph_src font ex yy xx =
     cdiv (int yy * glyph_height font) (m_glyphH ex) * glyph_width font
     + cdiv (int xx * glyph_width font) (m_glyphW ex)"

text \<open>
  The cell in row \<open>y\<close> and column \<open>x\<close> of the frame is drawn in the image as the character \<open>ch\<close>:
  every pixel of its rectangle holds what \<open>blit_glyph\<close>, called with \<open>ch\<close> and the cell's \<open>fg\<close>
  and \<open>bg\<close>, left at the scaled place of the glyph buffer.
\<close>

definition drawn_as :: "Font \<Rightarrow> Exporter \<Rightarrow> AsciiFrame \<Rightarrow> 32 word list \<Rightarrow> nat \<Rightarrow> nat \<Rightarrow> char \<Rightarrow> bool" where
  "drawn_as font ex frame img y x ch \<longleftrightarrow>
     (\<exists>glyphBuffer. length glyphBuffer = nat (glyph_width font * glyph_height font)
        \<and> (\<forall>yy<nat (m_glyphH ex). \<forall>xx<nat (m_glyphW ex).
              img ! nat (pixel_pos ex y x yy xx)
                = blit_glyph font glyphBuffer (glyph_width font) ch
                    (fg (cells frame ! nat (int y * cols frame + int x)))
                    (bg (cells frame ! nat (int y * cols frame + int x)))
                  ! nat (glyph_src font ex yy xx)))"

section \<open>Floating-point operations on finite values\<close>

lemma float_add_Fin: "float_add (Fin a) (Fin b) = Fin (a + b)"
  by (simp add: ieee_add_def)

lemma float_sub_Fin: "float_sub (Fin a) (Fin b) = Fin (a - b)"
  by (simp add: ieee_sub_def ieee_add_def ieee_neg_def)

lemma float_mul_Fin:
  "float_mul (Fin a) (Fin b) =
     (if a = 0 \<or> b = 0 then signed_zero ((a < 0) \<noteq> (b < 0)) else Fin (a * b))"
  by (simp add: ieee_mul_def)

lemma float_div_Fin:
  "b \<noteq> 0 \<Longrightarrow> float_div (Fin a) (Fin b) =
     (if a = 0 then signed_zero ((a < 0) \<noteq> (b < 0)) else Fin (a / b))"
  by (simp add: ieee_div_def)

lemma float_add_signed_zero: "b \<noteq> 0 \<Longrightarrow> float_add (signed_zero s) (Fin b) = Fin b"
  by (simp add: ieee_add_def signed_zero_def)

lemma ieee_less_Fin: "ieee_less (Fin a) (Fin b) \<longleftrightarrow> a < b"
  by (simp add: ieee_less_def)

lemma ieee_clamp_Fin: "ieee_clamp (Fin v) (Fin lo) (Fin hi) = Fin (clamp v lo hi)"
  by (simp add: ieee_clamp_def clamp_def ieee_less_Fin)

lemma to_int_Fin: "to_int (Fin r) = (if in_int (trunc r) then Some (trunc r) else None)"
  by (simp add: to_int_def)

lemma clamp_range: "lo \<le> hi \<Longrightarrow> lo \<le> clamp v lo hi \<and> clamp v lo hi \<le> hi"
  by (auto simp: clamp_def)

text \<open>
  With a finite gamma above zero and a finite contrast, \<open>apply_gamma\<close> and \<open>apply_contrast\<close> are
  the formulas on real numbers.
\<close>

lemma apply_gamma_finite:
  assumes "0 < g"
  shows "apply_gamma v (Fin g) = Fin (clamp ((clamp (v / 255) 0 1) powr (1 / g)) 0 1)"
proof -
  define v1 where "v1 = clamp (v / 255) 0 (1 :: real)"
  have range: "0 \<le> v1 \<and> v1 \<le> 1"
    unfolding v1_def by (rule clamp_range) simp
  have e: "float_div (Fin 1) (Fin g) = Fin (1 / g)"
    using assms by (simp add: float_div_Fin)
  have "ieee_pow v1 (Fin (1 / g)) = Fin (v1 powr (1 / g))"
    using assms by (simp add: ieee_pow_def)
  then show ?thesis
    unfolding apply_gamma_def Let_def e v1_def [symmetric] by (simp add: ieee_clamp_Fin)
qed

lemma apply_contrast_finite:
  "apply_contrast (Fin v) (Fin c) = Fin (clamp ((v - 0.5) * c + 0.5) 0 1)"
proof (cases "v - 0.5 = 0 \<or> c = 0")
  case True
  then have "float_add (float_mul (float_sub (Fin v) (Fin 0.5)) (Fin c)) (Fin 0.5) = Fin 0.5"
    by (simp only: float_sub_Fin float_mul_Fin if_True float_add_signed_zero)
  moreover have "(v - 0.5) * c + 0.5 = 0.5"
    using True by auto
  ultimately show ?thesis
    unfolding apply_contrast_def Let_def by (simp only: ieee_clamp_Fin)
next
  case False
  then have "float_add (float_mul (float_sub (Fin v) (Fin 0.5)) (Fin c)) (Fin 0.5)
               = Fin ((v - 0.5) * c + 0.5)"
    by (simp only: float_sub_Fin float_mul_Fin if_False float_add_Fin)
  then show ?thesis
    unfolding apply_contrast_def Let_def by (simp only: ieee_clamp_Fin)
qed

text \<open>
  Unless gamma or contrast is a NaN, or the contrast is infinite at the brightness 0.5,
  \<open>normalized\<close> is a finite value between 0 and 1.
\<close>

lemma ieee_clamp_range:
  assumes "s \<noteq> NaN" "s \<noteq> NegZero"
  shows "\<exists>n. ieee_clamp s (Fin 0) (Fin 1) = Fin n \<and> 0 \<le> n \<and> n \<le> 1"
  using assms by (cases s) (auto simp: ieee_clamp_def ieee_less_def)

lemma apply_gamma_range:
  assumes "gam \<noteq> NaN"
  shows "\<exists>a. apply_gamma v gam = Fin a \<and> 0 \<le> a \<and> a \<le> 1"
proof -
  define v1 where "v1 = clamp (v / 255) 0 (1 :: real)"
  have "ieee_pow v1 (float_div (Fin 1) gam) \<noteq> NaN \<and> ieee_pow v1 (float_div (Fin 1) gam) \<noteq> NegZero"
    using assms
    by (cases gam) (auto simp: ieee_div_def ieee_pow_def signed_inf_def signed_zero_def)
  then show ?thesis
    unfolding apply_gamma_def Let_def v1_def [symmetric] by (intro ieee_clamp_range) simp_all
qed

lemma apply_contrast_range:
  assumes "con \<noteq> NaN" "is_finite con \<or> a \<noteq> 0.5"
  shows "\<exists>n. apply_contrast (Fin a) con = Fin n \<and> 0 \<le> n \<and> n \<le> 1"
proof -
  have "float_add (float_mul (float_sub (Fin a) (Fin 0.5)) con) (Fin 0.5) \<noteq> NaN
        \<and> float_add (float_mul (float_sub (Fin a) (Fin 0.5)) con) (Fin 0.5) \<noteq> NegZero"
    using assms
    by (cases con)
       (auto simp: float_sub_Fin ieee_mul_def ieee_add_def signed_inf_def signed_zero_def)
  then show ?thesis
    unfolding apply_contrast_def Let_def by (intro ieee_clamp_range) simp_all
qed

lemma apply_gamma_black:
  assumes "gam \<noteq> NaN"
  shows "apply_gamma 0 gam = Fin 0 \<or> apply_gamma 0 gam = Fin 1"
  using assms
  by (cases gam)
     (auto simp: apply_gamma_def clamp_def ieee_div_def ieee_pow_def ieee_clamp_def ieee_less_def
        signed_inf_def signed_zero_def)

lemma normalized_range:
  assumes "gamma (m_config rd) \<noteq> NaN" "contrast (m_config rd) \<noteq> NaN"
    and "is_finite (contrast (m_config rd)) \<or> accumLuma acc = 0"
  shows "\<exists>n. normalized_of rd acc = Fin n \<and> 0 \<le> n \<and> n \<le> 1"
proof (cases "accumLuma acc = 0")
  case True
  then have "apply_gamma (accumLuma acc / real_of_int (max 1 (count acc))) (gamma (m_config rd)) = Fin 0
      \<or> apply_gamma (accumLuma acc / real_of_int (max 1 (count acc))) (gamma (m_config rd)) = Fin 1"
    using apply_gamma_black [OF assms(1)] by simp
  then show ?thesis
    unfolding normalized_of_def
    using apply_contrast_range [OF assms(2), of 0] apply_contrast_range [OF assms(2), of 1]
    by auto
next
  case False
  from apply_gamma_range [OF assms(1)] obtain a where
    "apply_gamma (accumLuma acc / real_of_int (max 1 (count acc))) (gamma (m_config rd)) = Fin a"
    by blast
  then show ?thesis
    unfolding normalized_of_def using apply_contrast_range [OF assms(2), of a] assms(3) False
    by simp
qed

text \<open>With a finite \<open>normalized\<close> between 0 and 1 the ramp index is defined.\<close>

lemma cell_from_accum_finite:
  assumes n: "normalized_of rd acc = Fin n" "0 \<le> n" "n \<le> 1"
    and ramp: "m_ramp rd = kRamp"
  shows "cell_from_accum rd acc row col = Inr (cell_of_normalized rd n acc row col)"
proof -
  have len: "real (length kRamp - 1) = 9" "kRamp \<noteq> []"
    by (simp_all add: kRamp_def)
  have prod: "float_mul (Fin n) (Fin 9) = Fin (n * 9)"
    by (simp add: float_mul_Fin signed_zero_def)
  have "0 \<le> \<lfloor>n * 9 + 0.5\<rfloor>" "\<lfloor>n * 9 + 0.5\<rfloor> \<le> 9"
    using n(2,3) by (simp_all add: floor_le_iff le_floor_iff)
  then have idx: "to_int (float_add (float_mul (Fin n) (Fin 9)) (Fin 0.5)) = Some \<lfloor>n * 9 + 0.5\<rfloor>"
    using n(2) unfolding prod float_add_Fin to_int_Fin trunc_def in_int_def by simp
  have norm: "apply_contrast (apply_gamma (accumLuma acc / real_of_int (max 1 (count acc)))
                (gamma (m_config rd))) (contrast (m_config rd)) = Fin n"
    using n(1) by (simp add: normalized_of_def)
  show ?thesis
    unfolding cell_from_accum_def cell_of_normalized_def Let_def norm ramp len idx
    by (simp add: len float_add_Fin ieee_less_Fin)
qed

lemmas finite_defs = apply_gamma_finite apply_contrast_finite float_add_Fin float_sub_Fin float_mul_Fin
  float_div_Fin ieee_less_Fin ieee_clamp_Fin to_int_Fin trunc_def in_int_def signed_zero_def

section \<open>The palette and the nearest-entry search\<close>

lemma upt_6: "[0..<6] = [0, 1, 2, 3, 4, 5]"
  by (simp add: upt_rec)

lemma upt_24:
  "[0..<24] = [0, 1, 2, 3, 4, 5, 6, 7, 8, 9, 10, 11, 12, 13, 14, 15, 16, 17, 18, 19, 20, 21, 22, 23]"
  by (simp add: upt_rec)

lemma xterm_palette_explicit:
  "xterm_palette = [
        RGB 0 0 0, RGB 205 0 0, RGB 0 205 0, RGB 205 205 0,
        RGB 0 0 238, RGB 205 0 205, RGB 0 205 205, RGB 229 229 229,
        RGB 127 127 127, RGB 255 0 0, RGB 0 255 0, RGB 255 255 0,
        RGB 92 92 255, RGB 255 0 255, RGB 0 255 255, RGB 255 255 255,
        RGB 0 0 0, RGB 0 0 95, RGB 0 0 135, RGB 0 0 175,
        RGB 0 0 215, RGB 0 0 255, RGB 0 95 0, RGB 0 95 95,
        RGB 0 95 135, RGB 0 95 175, RGB 0 95 215, RGB 0 95 255,
        RGB 0 135 0, RGB 0 135 95, RGB 0 135 135, RGB 0 135 175,
        RGB 0 135 215, RGB 0 135 255, RGB 0 175 0, RGB 0 175 95,
        RGB 0 175 135, RGB 0 175 175, RGB 0 175 215, RGB 0 175 255,
        RGB 0 215 0, RGB 0 215 95, RGB 0 215 135, RGB 0 215 175,
        RGB 0 215 215, RGB 0 215 255, RGB 0 255 0, RGB 0 255 95,
        RGB 0 255 135, RGB 0 255 175, RGB 0 255 215, RGB 0 255 255,
        RGB 95 0 0, RGB 95 0 95, RGB 95 0 135, RGB 95 0 175,
        RGB 95 0 215, RGB 95 0 255, RGB 95 95 0, RGB 95 95 95,
        RGB 95 95 135, RGB 95 95 175, RGB 95 95 215, RGB 95 95 255,
        RGB 95 135 0, RGB 95 135 95, RGB 95 135 135, RGB 95 135 175,
        RGB 95 135 215, RGB 95 135 255, RGB 95 175 0, RGB 95 175 95,
        RGB 95 175 135, RGB 95 175 175, RGB 95 175 215, RGB 95 175 255,
        RGB 95 215 0, RGB 95 215 95, RGB 95 215 135, RGB 95 215 175,
        RGB 95 215 215, RGB 95 215 255, RGB 95 255 0, RGB 95 255 95,
        RGB 95 255 135, RGB 95 255 175, RGB 95 255 215, RGB 95 255 255,
        RGB 135 0 0, RGB 135 0 95, RGB 135 0 135, RGB 135 0 175,
        RGB 135 0 215, RGB 135 0 255, RGB 135 95 0, RGB 135 95 95,
        RGB 135 95 135, RGB 135 95 175, RGB 135 95 215, RGB 135 95 255,
        RGB 135 135 0, RGB 135 135 95, RGB 135 135 135, RGB 135 135 175,
        RGB 135 135 215, RGB 135 135 255, RGB 135 175 0, RGB 135 175 95,
        RGB 135 175 135, RGB 135 175 175, RGB 135 175 215, RGB 135 175 255,
        RGB 135 215 0, RGB 135 215 95, RGB 135 215 135, RGB 135 215 175,
        RGB 135 215 215, RGB 135 215 255, RGB 135 255 0, RGB 135 255 95,
        RGB 135 255 135, RGB 135 255 175, RGB 135 255 215, RGB 135 255 255,
        RGB 175 0 0, RGB 175 0 95, RGB 175 0 135, RGB 175 0 175,
        RGB 175 0 215, RGB 175 0 255, RGB 175 95 0, RGB 175 95 95,
        RGB 175 95 135, RGB 175 95 175, RGB 175 95 215, RGB 175 95 255,
        RGB 175 135 0, RGB 175 135 95, RGB 175 135 135, RGB 175 135 175,
        RGB 175 135 215, RGB 175 135 255, RGB 175 175 0, RGB 175 175 95,
        RGB 175 175 135, RGB 175 175 175, RGB 175 175 215, RGB 175 175 255,
        RGB 175 215 0, RGB 175 215 95, RGB 175 215 135, RGB 175 215 175,
        RGB 175 215 215, RGB 175 215 255, RGB 175 255 0, RGB 175 255 95,
        RGB 175 255 135, RGB 175 255 175, RGB 175 255 215, RGB 175 255 255,
        RGB 215 0 0, RGB 215 0 95, RGB 215 0 135, RGB 215 0 175,
        RGB 215 0 215, RGB 215 0 255, RGB 215 95 0, RGB 215 95 95,
        RGB 215 95 135, RGB 215 95 175, RGB 215 95 215, RGB 215 95 255,
        RGB 215 135 0, RGB 215 135 95, RGB 215 135 135, RGB 215 135 175,
        RGB 215 135 215, RGB 215 135 255, RGB 215 175 0, RGB 215 175 95,
        RGB 215 175 135, RGB 215 175 175, RGB 215 175 215, RGB 215 175 255,
        RGB 215 215 0, RGB 215 215 95, RGB 215 215 135, RGB 215 215 175,
        RGB 215 215 215, RGB 215 215 255, RGB 215 255 0, RGB 215 255 95,
        RGB 215 255 135, RGB 215 255 175, RGB 215 255 215, RGB 215 255 255,
        RGB 255 0 0, RGB 255 0 95, RGB 255 0 135, RGB 255 0 175,
        RGB 255 0 215, RGB 255 0 255, RGB 255 95 0, RGB 255 95 95,
        RGB 255 95 135, RGB 255 95 175, RGB 255 95 215, RGB 255 95 255,
        RGB 255 135 0, RGB 255 135 95, RGB 255 135 135, RGB 255 135 175,
        RGB 255 135 215, RGB 255 135 255, RGB 255 175 0, RGB 255 175 95,
        RGB 255 175 135, RGB 255 175 175, RGB 255 175 215, RGB 255 175 255,
        RGB 255 215 0, RGB 255 215 95, RGB 255 215 135, RGB 255 215 175,
        RGB 255 215 215, RGB 255 215 255, RGB 255 255 0, RGB 255 255 95,
        RGB 255 255 135, RGB 255 255 175, RGB 255 255 215, RGB 255 255 255,
        RGB 8 8 8, RGB 18 18 18, RGB 28 28 28, RGB 38 38 38,
        RGB 48 48 48, RGB 58 58 58, RGB 68 68 68, RGB 78 78 78,
        RGB 88 88 88, RGB 98 98 98, RGB 108 108 108, RGB 118 118 118,
        RGB 128 128 128, RGB 138 138 138, RGB 148 148 148, RGB 158 158 158,
        RGB 168 168 168, RGB 178 178 178, RGB 188 188 188, RGB 198 198 198,
        RGB 208 208 208, RGB 218 218 218, RGB 228 228 228, RGB 238 238 238]"
  by (simp add: xterm_palette_def make_xterm_palette_def ANSI_BASE_COLORS_def upt_6 upt_24
      cube_level_def)

lemma length_xterm_palette: "length xterm_palette = 256"
  by (simp add: xterm_palette_explicit)

lemma xterm_scan_palette:
  "xterm_palette = pre @ ps \<Longrightarrow>
   xterm_scan r g b [length pre..<length pre + length ps] best = scan_list r g b ps (length pre) best"
proof (induction ps arbitrary: pre best)
  case Nil
  then show ?case by simp
next
  case (Cons p ps)
  obtain bi bd where best: "best = (bi, bd)"
    by (cases best)
  have at: "xterm_palette ! length pre = p"
    unfolding Cons.prems by simp
  have range: "[length pre..<length pre + length (p # ps)]
                 = length pre # [length (pre @ [p])..<length (pre @ [p]) + length ps]"
    by (simp add: upt_rec)
  have step: "\<And>acc. xterm_scan r g b [length (pre @ [p])..<length (pre @ [p]) + length ps] acc
                 = scan_list r g b ps (Suc (length pre)) acc"
    using Cons.IH [of "pre @ [p]"] Cons.prems by simp
  show ?case
    unfolding range best xterm_scan.simps scan_list.simps palette_dist_def at Let_def step
    by simp
qed

lemma xterm_index_by_list:
  "xterm_index_from_rgb r g b = fst (scan_list r g b xterm_palette 0 (0, 2147483647))"
  using xterm_scan_palette [of "[]" xterm_palette r g b "(0, 2147483647)"]
  by (simp add: xterm_index_from_rgb_def length_xterm_palette)

lemma xterm_index_200_10_10: "xterm_index_from_rgb 200 10 10 = 1"
  unfolding xterm_index_by_list xterm_palette_explicit by (simp add: Let_def)

lemma xterm_index_205_0_0: "xterm_index_from_rgb 205 0 0 = 1"
  unfolding xterm_index_by_list xterm_palette_explicit by (simp add: Let_def)

lemma xterm_index_0_0_0: "xterm_index_from_rgb 0 0 0 = 0"
  unfolding xterm_index_by_list xterm_palette_explicit by (simp add: Let_def)

lemma xterm_palette_0: "xterm_palette ! 0 = RGB 0 0 0"
  by (simp add: xterm_palette_explicit)

lemma xterm_palette_1: "xterm_palette ! 1 = RGB 205 0 0"
  by (simp add: xterm_palette_explicit)

lemma xterm_palette_16: "xterm_palette ! 16 = RGB 0 0 0"
  by (simp add: xterm_palette_explicit)

lemma xterm_palette_160: "xterm_palette ! 160 = RGB 215 0 0"
  by (simp add: xterm_palette_explicit)

section \<open>The nearest palette entry\<close>

lemma square_le_255: "\<bar>x\<bar> \<le> (255 :: int) \<Longrightarrow> x * x \<le> 65025"
proof -
  assume "\<bar>x\<bar> \<le> 255"
  then have "\<bar>x\<bar> * \<bar>x\<bar> \<le> 255 * 255"
    by (intro mult_mono) simp_all
  then show ?thesis
    by (simp add: abs_mult_self_eq)
qed

lemma uint8_range: "0 \<le> uint (x :: 8 word) \<and> uint x \<le> 255"
  using uint_lt2p [of x] by simp

lemma uint8_diff_abs: "\<bar>uint (x :: 8 word) - uint (y :: 8 word)\<bar> \<le> 255"
  using uint8_range [of x] uint8_range [of y] by linarith

lemma palette_dist_range: "0 \<le> palette_dist r g b i \<and> palette_dist r g b i \<le> 195075"
proof -
  have "0 \<le> x * x + y * y + z * z" for x y z :: int
    by (simp add: add_nonneg_nonneg)
  moreover have "x * x + y * y + z * z \<le> 195075"
    if "\<bar>x\<bar> \<le> 255" "\<bar>y\<bar> \<le> 255" "\<bar>z\<bar> \<le> 255" for x y z :: int
    using square_le_255 [OF that(1)] square_le_255 [OF that(2)] square_le_255 [OF that(3)] by simp
  ultimately show ?thesis
    unfolding palette_dist_def Let_def using uint8_diff_abs by blast
qed

lemma palette_dist_zero_iff:
  "palette_dist r g b i = 0 \<longleftrightarrow> xterm_palette ! i = RGB r g b"
proof -
  have sq: "x * x + y * y + z * z = 0 \<longleftrightarrow> x = 0 \<and> y = 0 \<and> z = 0" for x y z :: int
  proof
    assume s: "x * x + y * y + z * z = 0"
    have "0 \<le> x * x" "0 \<le> y * y" "0 \<le> z * z"
      by simp_all
    with s have "x * x = 0" "y * y = 0" "z * z = 0"
      by linarith+
    then show "x = 0 \<and> y = 0 \<and> z = 0"
      by simp
  qed simp
  obtain pr pg pb where p: "xterm_palette ! i = RGB pr pg pb"
    by (cases "xterm_palette ! i")
  show ?thesis
    unfolding palette_dist_def Let_def sq p by (auto simp: word_uint_eq_iff)
qed

lemma xterm_scan_snoc:
  "xterm_scan r g b (is @ [i]) best =
     (case xterm_scan r g b is best of
        (bestIndex, bestDist) \<Rightarrow>
          if palette_dist r g b i < bestDist then (i, palette_dist r g b i)
          else (bestIndex, bestDist))"
proof (induction "is" arbitrary: best)
  case Nil
  then show ?case by (cases best) (simp add: Let_def)
next
  case (Cons a "is")
  then show ?case by (cases best) (simp add: Let_def)
qed

text \<open>The loop returns the first index at which the distance is least.\<close>

lemma xterm_scan_first_minimum:
  "0 < n \<Longrightarrow>
   \<exists>j. xterm_scan r g b [0..<n] (0, 2147483647) = (j, palette_dist r g b j) \<and> j < n
       \<and> (\<forall>i<n. palette_dist r g b j \<le> palette_dist r g b i)
       \<and> (\<forall>i<j. palette_dist r g b j < palette_dist r g b i)"
proof (induction n)
  case 0
  then show ?case by simp
next
  case (Suc n)
  show ?case
  proof (cases "n = 0")
    case True
    have "palette_dist r g b 0 < 2147483647"
      using palette_dist_range [of r g b 0] by simp
    then show ?thesis
      using True by (simp add: Let_def)
  next
    case False
    then obtain j where j: "xterm_scan r g b [0..<n] (0, 2147483647) = (j, palette_dist r g b j)"
      "j < n" "\<forall>i<n. palette_dist r g b j \<le> palette_dist r g b i"
      "\<forall>i<j. palette_dist r g b j < palette_dist r g b i"
      using Suc.IH by auto
    have step: "xterm_scan r g b [0..<Suc n] (0, 2147483647) =
                  (if palette_dist r g b n < palette_dist r g b j then (n, palette_dist r g b n)
                   else (j, palette_dist r g b j))"
      using xterm_scan_snoc [of r g b "[0..<n]" n "(0, 2147483647)"] j(1) by simp
    show ?thesis
    proof (cases "palette_dist r g b n < palette_dist r g b j")
      case True
      have "\<forall>i<Suc n. palette_dist r g b n \<le> palette_dist r g b i"
        using True j(3) by (auto simp: less_Suc_eq intro: order.strict_implies_order order.strict_trans2)
      moreover have "\<forall>i<n. palette_dist r g b n < palette_dist r g b i"
        using True j(3) by (auto intro: order.strict_trans2)
      ultimately show ?thesis
        using step True by auto
    next
      case False
      have "\<forall>i<Suc n. palette_dist r g b j \<le> palette_dist r g b i"
        using False j(3) by (auto simp: less_Suc_eq)
      then show ?thesis
        using step False j(2) j(4) by auto
    qed
  qed
qed

lemma xterm_index_first_minimum:
  "xterm_index_from_rgb r g b < 256
   \<and> (\<forall>i<256. palette_dist r g b (xterm_index_from_rgb r g b) \<le> palette_dist r g b i)
   \<and> (\<forall>i<xterm_index_from_rgb r g b.
         palette_dist r g b (xterm_index_from_rgb r g b) < palette_dist r g b i)"
  using xterm_scan_first_minimum [of 256 r g b] by (auto simp: xterm_index_from_rgb_def)

text \<open>On a colour of the palette the search returns the first index that holds this colour.\<close>

lemma xterm_index_of_palette_entry:
  assumes "i < 256"
  shows "xterm_palette ! xterm_index_from_rgb (rgb_r (xterm_palette ! i)) (rgb_g (xterm_palette ! i))
            (rgb_b (xterm_palette ! i)) = xterm_palette ! i
         \<and> xterm_index_from_rgb (rgb_r (xterm_palette ! i)) (rgb_g (xterm_palette ! i))
            (rgb_b (xterm_palette ! i)) \<le> i
         \<and> (\<forall>k < xterm_index_from_rgb (rgb_r (xterm_palette ! i)) (rgb_g (xterm_palette ! i))
            (rgb_b (xterm_palette ! i)). xterm_palette ! k \<noteq> xterm_palette ! i)"
proof -
  define p where "p = xterm_palette ! i"
  define j where "j = xterm_index_from_rgb (rgb_r p) (rgb_g p) (rgb_b p)"
  have p: "RGB (rgb_r p) (rgb_g p) (rgb_b p) = p"
    by simp
  have zero: "palette_dist (rgb_r p) (rgb_g p) (rgb_b p) i = 0"
    by (simp add: palette_dist_zero_iff p_def)
  have least: "\<forall>k<256. palette_dist (rgb_r p) (rgb_g p) (rgb_b p) j
                 \<le> palette_dist (rgb_r p) (rgb_g p) (rgb_b p) k"
    and first: "\<forall>k<j. palette_dist (rgb_r p) (rgb_g p) (rgb_b p) j
                 < palette_dist (rgb_r p) (rgb_g p) (rgb_b p) k"
    using xterm_index_first_minimum [of "rgb_r p" "rgb_g p" "rgb_b p"] by (simp_all add: j_def)
  have dj: "palette_dist (rgb_r p) (rgb_g p) (rgb_b p) j = 0"
    using least assms zero palette_dist_range [of "rgb_r p" "rgb_g p" "rgb_b p" j] by fastforce
  then have same: "xterm_palette ! j = p"
    by (simp add: palette_dist_zero_iff)
  have le: "j \<le> i"
  proof (rule ccontr)
    assume "\<not> j \<le> i"
    then have "palette_dist (rgb_r p) (rgb_g p) (rgb_b p) j
                 < palette_dist (rgb_r p) (rgb_g p) (rgb_b p) i"
      using first by simp
    then show False
      using dj zero by simp
  qed
  have before: "xterm_palette ! k \<noteq> p" if "k < j" for k
  proof
    assume "xterm_palette ! k = p"
    then have "palette_dist (rgb_r p) (rgb_g p) (rgb_b p) k = 0"
      by (simp add: palette_dist_zero_iff)
    then show False
      using first that dj by fastforce
  qed
  show ?thesis
    using same le before unfolding j_def p_def by blast
qed

lemma rgb_key_inject: "rgb_key p = rgb_key q \<longleftrightarrow> p = q"
proof
  assume k: "rgb_key p = rgb_key q"
  obtain pr pg pb where p: "p = RGB pr pg pb" by (cases p)
  obtain qr qg qb where q: "q = RGB qr qg qb" by (cases q)
  have eq: "uint pr * 65536 + uint pg * 256 + uint pb = uint qr * 65536 + uint qg * 256 + uint qb"
    using k by (simp add: rgb_key_def p q)
  note bounds = uint8_range [of pr] uint8_range [of pg] uint8_range [of pb]
    uint8_range [of qr] uint8_range [of qg] uint8_range [of qb]
  have r: "uint pr = uint qr"
  proof (rule ccontr)
    assume "uint pr \<noteq> uint qr"
    then consider "uint pr < uint qr" | "uint qr < uint pr"
      by linarith
    then show False
      using eq bounds by cases linarith+
  qed
  have g: "uint pg = uint qg"
  proof (rule ccontr)
    assume "uint pg \<noteq> uint qg"
    then consider "uint pg < uint qg" | "uint qg < uint pg"
      by linarith
    then show False
      using eq r bounds by cases linarith+
  qed
  have "uint pb = uint qb"
    using eq r g by simp
  with r g have "uint pr = uint qr \<and> uint pg = uint qg \<and> uint pb = uint qb"
    by simp
  then show "p = q"
    by (simp add: p q word_uint_eq_iff)
qed simp

lemma repeats_lower: "m \<in> set (repeats seen ks l) \<Longrightarrow> l \<le> m"
proof (induction ks arbitrary: seen l)
  case Nil
  then show ?case by simp
next
  case (Cons k ks)
  from Cons.prems have "m = l \<or> m \<in> set (repeats (k # seen) ks (Suc l))"
    by (auto split: if_splits)
  then show ?case
    using Cons.IH [of "k # seen" "Suc l"] by auto
qed

lemma repeats_iff:
  "i < length ks \<Longrightarrow>
   n + i \<in> set (repeats seen ks n) \<longleftrightarrow> ks ! i \<in> set seen \<union> set (take i ks)"
proof (induction ks arbitrary: seen n i)
  case Nil
  then show ?case by simp
next
  case (Cons k ks)
  show ?case
  proof (cases i)
    case 0
    have "n \<notin> set (repeats (k # seen) ks (Suc n))"
      using repeats_lower [of n "k # seen" ks "Suc n"] by auto
    then show ?thesis
      using 0 by simp
  next
    case (Suc i')
    then have "i' < length ks"
      using Cons.prems by simp
    from Cons.IH [OF this, of "Suc n" "k # seen"] show ?thesis
      using Suc by auto
  qed
qed

lemma palette_keys:
  "map rgb_key xterm_palette = 
    [0, 13434880, 52480, 13487360, 238, 13435085, 52685, 15066597,
     8355711, 16711680, 65280, 16776960, 6053119, 16711935, 65535, 16777215,
     0, 95, 135, 175, 215, 255, 24320, 24415,
     24455, 24495, 24535, 24575, 34560, 34655, 34695, 34735,
     34775, 34815, 44800, 44895, 44935, 44975, 45015, 45055,
     55040, 55135, 55175, 55215, 55255, 55295, 65280, 65375,
     65415, 65455, 65495, 65535, 6225920, 6226015, 6226055, 6226095,
     6226135, 6226175, 6250240, 6250335, 6250375, 6250415, 6250455, 6250495,
     6260480, 6260575, 6260615, 6260655, 6260695, 6260735, 6270720, 6270815,
     6270855, 6270895, 6270935, 6270975, 6280960, 6281055, 6281095, 6281135,
     6281175, 6281215, 6291200, 6291295, 6291335, 6291375, 6291415, 6291455,
     8847360, 8847455, 8847495, 8847535, 8847575, 8847615, 8871680, 8871775,
     8871815, 8871855, 8871895, 8871935, 8881920, 8882015, 8882055, 8882095,
     8882135, 8882175, 8892160, 8892255, 8892295, 8892335, 8892375, 8892415,
     8902400, 8902495, 8902535, 8902575, 8902615, 8902655, 8912640, 8912735,
     8912775, 8912815, 8912855, 8912895, 11468800, 11468895, 11468935, 11468975,
     11469015, 11469055, 11493120, 11493215, 11493255, 11493295, 11493335, 11493375,
     11503360, 11503455, 11503495, 11503535, 11503575, 11503615, 11513600, 11513695,
     11513735, 11513775, 11513815, 11513855, 11523840, 11523935, 11523975, 11524015,
     11524055, 11524095, 11534080, 11534175, 11534215, 11534255, 11534295, 11534335,
     14090240, 14090335, 14090375, 14090415, 14090455, 14090495, 14114560, 14114655,
     14114695, 14114735, 14114775, 14114815, 14124800, 14124895, 14124935, 14124975,
     14125015, 14125055, 14135040, 14135135, 14135175, 14135215, 14135255, 14135295,
     14145280, 14145375, 14145415, 14145455, 14145495, 14145535, 14155520, 14155615,
     14155655, 14155695, 14155735, 14155775, 16711680, 16711775, 16711815, 16711855,
     16711895, 16711935, 16736000, 16736095, 16736135, 16736175, 16736215, 16736255,
     16746240, 16746335, 16746375, 16746415, 16746455, 16746495, 16756480, 16756575,
     16756615, 16756655, 16756695, 16756735, 16766720, 16766815, 16766855, 16766895,
     16766935, 16766975, 16776960, 16777055, 16777095, 16777135, 16777175, 16777215,
     526344, 1184274, 1842204, 2500134, 3158064, 3815994, 4473924, 5131854,
     5789784, 6447714, 7105644, 7763574, 8421504, 9079434, 9737364, 10395294,
     11053224, 11711154, 12369084, 13027014, 13684944, 14342874, 15000804, 15658734]"
  unfolding xterm_palette_explicit by (simp add: rgb_key_def)

lemma palette_repeats: "repeats [] (map rgb_key xterm_palette) 0 = [16, 46, 51, 196, 201, 226, 231]"
  unfolding palette_keys by simp

text \<open>Seven entries of the palette repeat an earlier one; every other entry is the first of its colour.\<close>

lemma palette_first_occurrence:
  assumes "i < 256" and "i \<notin> {16, 46, 51, 196, 201, 226, 231}" and "k < i"
  shows "xterm_palette ! k \<noteq> xterm_palette ! i"
proof
  assume eq: "xterm_palette ! k = xterm_palette ! i"
  have len: "i < length (map rgb_key xterm_palette)"
    using assms(1) by (simp add: length_xterm_palette)
  have "map rgb_key xterm_palette ! k = map rgb_key xterm_palette ! i"
    using eq assms by (simp add: length_xterm_palette)
  moreover have "map rgb_key xterm_palette ! k \<in> set (take i (map rgb_key xterm_palette))"
    using assms len by (auto simp: in_set_conv_nth intro!: exI [of _ k])
  ultimately have "0 + i \<in> set (repeats [] (map rgb_key xterm_palette) 0)"
    using repeats_iff [OF len, of 0 "[]"] by simp
  then show False
    using assms(2) by (simp add: palette_repeats)
qed

lemma xterm_index_of_repeated_entries:
  "xterm_index_from_rgb 0 0 0 = 0"
  "xterm_index_from_rgb 0 255 0 = 10"
  "xterm_index_from_rgb 0 255 255 = 14"
  "xterm_index_from_rgb 255 0 0 = 9"
  "xterm_index_from_rgb 255 0 255 = 13"
  "xterm_index_from_rgb 255 255 0 = 11"
  "xterm_index_from_rgb 255 255 255 = 15"
  unfolding xterm_index_by_list xterm_palette_explicit by (simp_all add: Let_def)

lemma xterm_palette_repeated_entries:
  "xterm_palette ! 16 = RGB 0 0 0"
  "xterm_palette ! 46 = RGB 0 255 0"
  "xterm_palette ! 51 = RGB 0 255 255"
  "xterm_palette ! 196 = RGB 255 0 0"
  "xterm_palette ! 201 = RGB 255 0 255"
  "xterm_palette ! 226 = RGB 255 255 0"
  "xterm_palette ! 231 = RGB 255 255 255"
  by (simp_all add: xterm_palette_explicit)

text \<open>
  Claim C4 as stated fails: palette entries 0 and 16 are both black, and the search, which keeps
  the first of equally near entries, returns 0 for the colour of entry 16.
\<close>

theorem xterm_index_roundtrip_counterexample:
  "xterm_index_from_rgb (rgb_r (xterm_palette ! 16)) (rgb_g (xterm_palette ! 16))
      (rgb_b (xterm_palette ! 16)) = 0
   \<and> (0 :: nat) \<noteq> 16"
  by (simp add: xterm_palette_repeated_entries xterm_index_of_repeated_entries)

text \<open>
  Claim C4, amended: for every palette index \<open>i\<close> in \<open>[0, 255]\<close>, the index found for that
  entry's own RGB value is the smallest index holding the same colour: the entry found equals
  entry \<open>i\<close>, and the index is \<open>i\<close> itself except for the seven entries of the colour cube that
  repeat one of the 16 base colours, where it is the base colour's index:
  16, 46, 51, 196, 201, 226, 231 give 0, 10, 14, 9, 13, 11, 15.
\<close>

theorem xterm_index_roundtrip:
  "i < 256 \<longrightarrow>
     (let j = xterm_index_from_rgb (rgb_r (xterm_palette ! i)) (rgb_g (xterm_palette ! i))
                (rgb_b (xterm_palette ! i))
      in xterm_palette ! j = xterm_palette ! i
         \<and> (\<forall>k<j. xterm_palette ! k \<noteq> xterm_palette ! i)
         \<and> j = (if i = 16 then 0 else if i = 46 then 10 else if i = 51 then 14
                else if i = 196 then 9 else if i = 201 then 13 else if i = 226 then 11
                else if i = 231 then 15 else i))"
proof
  assume i: "i < 256"
  define j where "j = xterm_index_from_rgb (rgb_r (xterm_palette ! i)) (rgb_g (xterm_palette ! i))
                (rgb_b (xterm_palette ! i))"
  have same: "xterm_palette ! j = xterm_palette ! i" and le: "j \<le> i"
    and first: "\<forall>k<j. xterm_palette ! k \<noteq> xterm_palette ! i"
    using xterm_index_of_palette_entry [OF i] by (simp_all add: j_def)
  have "j = i" if "i \<notin> {16, 46, 51, 196, 201, 226, 231}"
  proof (rule ccontr)
    assume "j \<noteq> i"
    then have "j < i" using le by simp
    from palette_first_occurrence [OF i that this] same show False by simp
  qed
  moreover have "j = 0" if "i = 16"
    unfolding j_def that by (simp add: xterm_palette_repeated_entries xterm_index_of_repeated_entries)
  moreover have "j = 10" if "i = 46"
    unfolding j_def that by (simp add: xterm_palette_repeated_entries xterm_index_of_repeated_entries)
  moreover have "j = 14" if "i = 51"
    unfolding j_def that by (simp add: xterm_palette_repeated_entries xterm_index_of_repeated_entries)
  moreover have "j = 9" if "i = 196"
    unfolding j_def that by (simp add: xterm_palette_repeated_entries xterm_index_of_repeated_entries)
  moreover have "j = 13" if "i = 201"
    unfolding j_def that by (simp add: xterm_palette_repeated_entries xterm_index_of_repeated_entries)
  moreover have "j = 11" if "i = 226"
    unfolding j_def that by (simp add: xterm_palette_repeated_entries xterm_index_of_repeated_entries)
  moreover have "j = 15" if "i = 231"
    unfolding j_def that by (simp add: xterm_palette_repeated_entries xterm_index_of_repeated_entries)
  ultimately have "j = (if i = 16 then 0 else if i = 46 then 10 else if i = 51 then 14
                else if i = 196 then 9 else if i = 201 then 13 else if i = 226 then 11
                else if i = 231 then 15 else i)"
    by auto
  then show "let j = xterm_index_from_rgb (rgb_r (xterm_palette ! i)) (rgb_g (xterm_palette ! i))
                (rgb_b (xterm_palette ! i))
      in xterm_palette ! j = xterm_palette ! i
         \<and> (\<forall>k<j. xterm_palette ! k \<noteq> xterm_palette ! i)
         \<and> j = (if i = 16 then 0 else if i = 46 then 10 else if i = 51 then 14
                else if i = 196 then 9 else if i = 201 then 13 else if i = 226 then 11
                else if i = 231 then 15 else i)"
    using same first unfolding j_def Let_def by blast
qed

theorem xterm_index_roundtrip_witness:
  "(160 :: nat) < 256
   \<and> xterm_index_from_rgb (rgb_r (xterm_palette ! 160)) (rgb_g (xterm_palette ! 160))
        (rgb_b (xterm_palette ! 160)) = 160
   \<and> xterm_index_from_rgb (rgb_r (xterm_palette ! 196)) (rgb_g (xterm_palette ! 196))
        (rgb_b (xterm_palette ! 196)) = 9"
  using xterm_index_roundtrip [of 160] xterm_index_roundtrip [of 196]
  by (simp add: Let_def)

section \<open>The video queues\<close>

lemma pushVideoFrame_blocks_when_full:
  "decoder_running s \<Longrightarrow> length (decoder_videoQueue s) = kMaxVideoQueue \<Longrightarrow> pushVideoFrame frame s = None"
  by (simp add: pushVideoFrame_def)

lemma path_step_decoder_queue:
  "path_step a s = Some s' \<Longrightarrow> length (decoder_videoQueue s) \<le> kMaxVideoQueue
     \<Longrightarrow> length (decoder_videoQueue s') \<le> kMaxVideoQueue"
  by (cases a)
     (auto simp: path_step_def pushVideoFrame_def decodeThread_step_def popVideoFrame_def
         asciiThread_pop_def split: if_splits list.splits option.splits)

lemma path_run_decoder_queue:
  "path_run as s = Some s' \<Longrightarrow> length (decoder_videoQueue s) \<le> kMaxVideoQueue
     \<Longrightarrow> length (decoder_videoQueue s') \<le> kMaxVideoQueue"
proof (induction as arbitrary: s)
  case Nil
  then show ?case by simp
next
  case (Cons a as)
  then obtain t where t: "path_step a s = Some t" and rest: "path_run as t = Some s'"
    by (auto split: option.splits)
  from path_step_decoder_queue [OF t Cons.prems(2)] Cons.IH [OF rest] show ?case
    by blast
qed

lemma decoder_queue_bounded:
  "path_run as path_start = Some s \<Longrightarrow> length (decoder_videoQueue s) \<le> kMaxVideoQueue"
  using path_run_decoder_queue [of as path_start s] by (simp add: path_start_def)

lemma relay_one:
  "decoder_running s \<Longrightarrow> pipeline_running s \<Longrightarrow> decoder_videoQueue s = [] \<Longrightarrow>
   path_run [DecoderPush frame, DecodeThread] s
     = Some (s\<lparr>stats_videoFrames := stats_videoFrames s + 1,
               pipeline_videoQueue := pipeline_videoQueue s @ [frame]\<rparr>)"
  by (simp add: path_step_def pushVideoFrame_def decodeThread_step_def popVideoFrame_def
      kMaxVideoQueue_def)

text \<open>
  Claim C1, evaluated on the code: the decoder pushes nine frames, \<open>Pipeline::decodeThread\<close> moves
  each on at once, the ASCII worker never runs.  No step blocks, and nine frames, more than
  \<open>kMaxVideoQueue\<close>, wait between the decoder and the ASCII worker, all of them in the
  pipeline's own queue.
\<close>

theorem video_path_exceeds_capacity:
  "map_option (\<lambda>s. (decoder_videoQueue s, pipeline_videoQueue s, buffered_frames s,
                     buffered_frames s \<le> kMaxVideoQueue))
     (path_run [DecoderPush 1, DecodeThread, DecoderPush 2, DecodeThread, DecoderPush 3, DecodeThread,
                DecoderPush 4, DecodeThread, DecoderPush 5, DecodeThread, DecoderPush 6, DecodeThread,
                DecoderPush 7, DecodeThread, DecoderPush 8, DecodeThread, DecoderPush 9, DecodeThread]
        (path_start :: nat VideoPath))
   = Some ([], [1, 2, 3, 4, 5, 6, 7, 8, 9], 9, False)"
  by (simp add: path_step_def pushVideoFrame_def decodeThread_step_def popVideoFrame_def
      kMaxVideoQueue_def path_start_def buffered_frames_def)

section \<open>The audio clock\<close>

lemma onData_samplesPlayed:
  assumes "0 < device_channels ap"
  shows "\<exists>out ap'. onData n ap = Some (out, ap')
           \<and> length out = n * device_channels ap
           \<and> m_samplesPlayed ap' = m_samplesPlayed ap
               + of_nat (min (length (m_queue ap)) (n * device_channels ap) div device_channels ap)
           \<and> m_audioConfig ap' = m_audioConfig ap
           \<and> device_sampleRate ap' = device_sampleRate ap"
  using assms by (cases "m_queue ap = []") (simp_all add: onData_def Let_def)

text \<open>
  Claim C8 as stated fails: on an empty ring a callback for 480 frames at 48 kHz writes 960 zeros
  and leaves the clock where it was, not 10 ms later.
\<close>

theorem playbackTime_underrun_counterexample:
  "map_option (\<lambda>(out, ap'). (out, playbackTime ap'))
     (onData 480 \<lparr>m_audioConfig = \<lparr>enabled = True, volume = 1\<rparr>, m_queue = [],
                  m_samplesPlayed = 0, device_sampleRate = 48000, device_channels = 2\<rparr>)
     = Some (replicate 960 0, 0)
   \<and> (0 :: real) \<noteq> 480 / 48000"
  by (simp add: onData_def playbackTime_def)

text \<open>
  Claim C8, amended: a callback for \<open>n\<close> frames returns \<open>n * channels\<close> samples and advances the
  clock by the number of whole frames it took from the ring, \<open>min (ring size) (n * channels) div
  channels\<close>, over the sample rate.  That is \<open>n / sample_rate\<close> when the ring holds the \<open>n\<close> frames
  asked for; the zeros filled in on underrun are not counted.  (Audio enabled, a device with at
  least one channel and a positive rate, and the 64-bit counter not wrapping.)
\<close>

theorem playbackTime_advance:
  assumes "enabled (m_audioConfig ap)"
    and "0 < device_channels ap"
    and "0 < device_sampleRate ap"
    and "unat (m_samplesPlayed ap) + n < 2 ^ 64"
  shows "\<exists>out ap'. onData n ap = Some (out, ap')
           \<and> length out = n * device_channels ap
           \<and> playbackTime ap' = playbackTime ap
               + real (min (length (m_queue ap)) (n * device_channels ap) div device_channels ap)
                   / real (device_sampleRate ap)
           \<and> (n * device_channels ap \<le> length (m_queue ap)
                \<longrightarrow> playbackTime ap' = playbackTime ap + real n / real (device_sampleRate ap))"
proof -
  define k where "k = min (length (m_queue ap)) (n * device_channels ap) div device_channels ap"
  from onData_samplesPlayed [OF assms(2), of n] obtain out ap' where
    run: "onData n ap = Some (out, ap')" and len: "length out = n * device_channels ap"
    and played: "m_samplesPlayed ap' = m_samplesPlayed ap + of_nat k"
    and same: "m_audioConfig ap' = m_audioConfig ap" "device_sampleRate ap' = device_sampleRate ap"
    unfolding k_def by blast
  have "k \<le> n * device_channels ap div device_channels ap"
    unfolding k_def by (rule div_le_mono) simp
  then have kn: "k \<le> n"
    using assms(2) by simp
  have "unat (m_samplesPlayed ap') = unat (m_samplesPlayed ap) + k"
    unfolding played using kn assms(4) by (simp add: unat_word_ariths unat_of_nat)
  then have clock: "playbackTime ap' = playbackTime ap + real k / real (device_sampleRate ap)"
    using assms(1) same by (simp add: playbackTime_def add_divide_distrib)
  have full: "k = n" if "n * device_channels ap \<le> length (m_queue ap)"
    using that assms(2) by (simp add: k_def min_def)
  show ?thesis
    using run len clock full unfolding k_def by auto
qed

theorem playbackTime_advance_witness:
  "let ap = \<lparr>m_audioConfig = \<lparr>enabled = True, volume = 1\<rparr>, m_queue = [100, 200, 300],
             m_samplesPlayed = 0, device_sampleRate = 48000, device_channels = 2\<rparr>
   in enabled (m_audioConfig ap) \<and> 0 < device_channels ap \<and> 0 < device_sampleRate ap
      \<and> unat (m_samplesPlayed ap) + 480 < 2 ^ 64
      \<and> (\<exists>out ap'. onData 480 ap = Some (out, ap') \<and> length out = 960
            \<and> playbackTime ap' = playbackTime ap + 1 / 48000)"
  using playbackTime_advance [of "\<lparr>m_audioConfig = \<lparr>enabled = True, volume = 1\<rparr>,
      m_queue = [100, 200, 300], m_samplesPlayed = 0, device_sampleRate = 48000,
      device_channels = 2\<rparr>" 480]
  by (simp add: Let_def)

section \<open>The bounds of gamma and contrast\<close>

lemma ieee_clamp_in_range:
  assumes "v \<noteq> NaN" "lo \<le> hi"
  shows "in_range (ieee_clamp v (Fin lo) (Fin hi)) lo hi"
  using assms by (cases v) (auto simp: ieee_clamp_def ieee_less_def in_range_def)

text \<open>
  \<open>adjustGamma\<close> and \<open>adjustContrast\<close> clamp to the ranges of the specification: whatever the
  value before, the value after lies in the range, unless the sum is a NaN, which \<open>std::clamp\<close>
  hands through.
\<close>

lemma adjustGamma_bounds:
  assumes "float_add (gamma (m_config rd)) d \<noteq> NaN"
  shows "in_range (gamma (config (adjustGamma d rd))) 0.5 4.0"
  using ieee_clamp_in_range [OF assms, of "0.5" "4.0"] by (simp add: adjustGamma_def config_def)

lemma adjustContrast_bounds:
  assumes "float_add (contrast (m_config rd)) d \<noteq> NaN"
  shows "in_range (contrast (config (adjustContrast d rd))) 0.2 3.0"
  using ieee_clamp_in_range [OF assms, of "0.2" "3.0"]
  by (simp add: adjustContrast_def config_def)

lemma adjustGamma_nan:
  "gamma (m_config rd) = NaN \<Longrightarrow> gamma (config (adjustGamma d rd)) = NaN"
  by (simp add: adjustGamma_def config_def ieee_add_def ieee_clamp_def ieee_less_def)

lemma initialize_renderer_config:
  "config (initialize_renderer opts) = main_renderer_config opts"
  by (simp add: initialize_renderer_def configure_def buildRamp_def config_def)

lemma main_renderer_config_values:
  "gamma (main_renderer_config opts) = opt_gamma opts"
  "contrast (main_renderer_config opts) = opt_contrast opts"
  by (simp_all add: main_renderer_config_def Let_def split: option.splits)

text \<open>
  Claim C9, evaluated on the code.  \<open>parseArgs\<close> checks no range and \<open>configure\<close> stores what it
  is given, so \<open>--gamma 10 --contrast 5\<close> starts the renderer with gamma 10 and contrast 5,
  outside \<open>[0.5, 4.0]\<close> and \<open>[0.2, 3.0]\<close>.  The other two operations that write gamma and
  contrast clamp to exactly these ranges: from that state \<open>adjustGamma\<close> and \<open>adjustContrast\<close>,
  even with a change of 0, give 4 and 3, and after the keys \<open>G\<close> and \<open>B\<close> the configuration is
  inside the bounds.
\<close>

theorem initial_config_out_of_bounds:
  "(let opts = \<lparr>opt_mode = ANSI256, opt_grid = None, opt_halfblock = False, opt_dither = Bayer4,
                 opt_gamma = Fin 10, opt_contrast = Fin 5\<rparr>;
        rd = initialize_renderer opts
    in gamma (config rd) = Fin 10 \<and> contrast (config rd) = Fin 5
       \<and> \<not> config_in_bounds (config rd)
       \<and> gamma (config (adjustGamma (Fin 0) rd)) = Fin 4
       \<and> contrast (config (adjustContrast (Fin 0) rd)) = Fin 3
       \<and> config_in_bounds (config (controlThread ''GB'' rd)))"
  by (simp add: initialize_renderer_def main_renderer_config_def default_RendererConfig_def
      configure_def buildRamp_def config_def new_AsciiRenderer_def config_in_bounds_def
      in_range_def adjustGamma_def adjustContrast_def control_key_def float_add_Fin
      ieee_clamp_Fin clamp_def Let_def)

section \<open>Rounding to binary64\<close>

lemma round_even_error: "\<bar>of_int (round_even x) - x\<bar> \<le> 1 / 2"
proof -
  define f where "f = \<lfloor>x\<rfloor>"
  define d where "d = x - of_int f"
  have d: "0 \<le> d" "d < 1"
    unfolding d_def f_def by linarith+
  have x: "x = of_int f + d"
    by (simp add: d_def)
  have r: "round_even x = (if d < 1 / 2 then f else if 1 / 2 < d then f + 1
                           else if even f then f else f + 1)"
    unfolding round_even_def Let_def f_def [symmetric] d_def [symmetric] ..
  have "\<bar>of_int (round_even x) - (of_int f + d)\<bar> \<le> 1 / 2"
    unfolding r using d by (auto simp: abs_if)
  then show ?thesis
    by (simp only: flip: x)
qed

lemma round_even_of_int: "round_even (of_int n) = n"
  by (simp add: round_even_def)

lemma floor_log2:
  assumes "0 < r" "2 powr of_int e \<le> r" "r < 2 powr of_int (e + 1)"
  shows "\<lfloor>log 2 r\<rfloor> = e"
proof (rule floor_unique)
  show "of_int e \<le> log 2 r"
    using assms(1,2) by (simp add: le_log_iff)
  have "log 2 r < of_int (e + 1)"
    using assms(1,3) by (simp add: log_less_iff)
  then show "log 2 r < of_int e + 1"
    by simp
qed

text \<open>
  The rounding of a number between \<open>2 ^ (52 - k)\<close> and \<open>2 ^ (53 - k)\<close>: the spacing of the
  doubles there is \<open>2 ^ - k\<close>.
\<close>

lemma round_double_scaled:
  assumes lo: "2 ^ 52 \<le> \<bar>r\<bar> * 2 ^ k" and hi: "\<bar>r\<bar> * 2 ^ k < 2 ^ 53" and k: "k \<le> 1074"
  shows "round_double r = Fin (of_int (round_even (r * 2 ^ k)) / 2 ^ k)"
proof -
  define e where "e = 52 - int k"
  have pos: "0 < \<bar>r\<bar>"
  proof (rule ccontr)
    assume "\<not> 0 < \<bar>r\<bar>"
    then have "\<bar>r\<bar> * 2 ^ k = 0" by simp
    with lo show False by simp
  qed
  have pk: "2 powr real k = (2 :: real) ^ k"
    by (simp add: powr_realpow)
  have "real_of_int e = 52 - real k" "real_of_int (e + 1) = 53 - real k"
    by (simp_all add: e_def)
  then have "2 powr real_of_int e = (2 :: real) powr 52 / 2 powr real k"
    "2 powr real_of_int (e + 1) = (2 :: real) powr 53 / 2 powr real k"
    by (simp_all only: powr_diff)
  then have p2: "2 powr real_of_int e = 2 ^ 52 / 2 ^ k" "2 powr real_of_int (e + 1) = 2 ^ 53 / 2 ^ k"
    unfolding pk by simp_all
  have "2 powr real_of_int e \<le> \<bar>r\<bar>" "\<bar>r\<bar> < 2 powr real_of_int (e + 1)"
    unfolding p2 using lo hi by (simp_all add: field_simps)
  then have fl: "\<lfloor>log 2 \<bar>r\<bar>\<rfloor> = e"
    using pos by (intro floor_log2)
  have mx: "max e (- 1022) = e"
    using k by (simp add: e_def)
  have "real_of_int (e - 52) = - real k"
    by (simp add: e_def)
  then have "2 powr real_of_int (e - 52) = inverse ((2 :: real) powr real k)"
    by (simp only: powr_minus)
  then have q: "2 powr real_of_int (e - 52) = 1 / (2 :: real) ^ k"
    unfolding pk by (simp add: inverse_eq_divide)
  define n where "n = round_even (r * 2 ^ k)"
  have err: "\<bar>of_int n - r * 2 ^ k\<bar> \<le> 1 / 2"
    unfolding n_def by (rule round_even_error)
  have scaled: "\<bar>r * 2 ^ k\<bar> = \<bar>r\<bar> * 2 ^ k"
    by (simp add: abs_mult)
  have big: "(2 :: real) ^ 52 = 4503599627370496" "(2 :: real) ^ 53 = 9007199254740992"
    by simp_all
  have n_lo: "1 \<le> \<bar>real_of_int n\<bar>" and n_hi: "\<bar>real_of_int n\<bar> \<le> 2 ^ 54"
    using err lo hi unfolding scaled [symmetric] big by (simp_all add: abs_if split: if_splits)
  have m_ne: "of_int n * (1 / 2 ^ k) \<noteq> (0 :: real)"
    using n_lo by auto
  have "\<bar>real_of_int n * (1 / 2 ^ k)\<bar> = \<bar>real_of_int n\<bar> / 2 ^ k"
    by (simp add: abs_mult)
  also have "\<dots> \<le> \<bar>real_of_int n\<bar>"
    by (simp add: field_simps mult_le_cancel_left1)
  also have "\<dots> \<le> 2 ^ 54"
    by (rule n_hi)
  also have "\<dots> < (2 :: real) ^ 1024"
    by (rule power_strict_increasing) simp_all
  finally have m_small: "\<not> 2 ^ 1024 \<le> \<bar>real_of_int n * (1 / 2 ^ k)\<bar>"
    by simp
  have r0: "r \<noteq> 0"
    using pos by simp
  have "r / (1 / 2 ^ k) = r * 2 ^ k"
    by simp
  then show ?thesis
    unfolding round_double_def Let_def fl mx q
    using r0 m_ne m_small by (simp add: n_def)
qed

text \<open>The doubles of the presenter's literals and of the inputs used below.\<close>

lemma round_double_0_01: "round_double 0.01 = Fin (5764607523034235 / 2 ^ 59)"
proof -
  have s: "(0.01 :: real) * 2 ^ 59 = 576460752303423488 / 100"
    by simp
  have "round_even (576460752303423488 / 100) = 5764607523034235"
    by (simp add: round_even_def Let_def)
  then show ?thesis
    using round_double_scaled [of "0.01" 59] unfolding s by simp
qed

lemma round_double_0_05: "round_double 0.05 = Fin (7205759403792794 / 2 ^ 57)"
proof -
  have s: "(0.05 :: real) * 2 ^ 57 = 720575940379279360 / 100"
    by simp
  have "round_even (720575940379279360 / 100) = 7205759403792794"
    by (simp add: round_even_def Let_def)
  then show ?thesis
    using round_double_scaled [of "0.05" 57] unfolding s by simp
qed

lemma round_double_0_015: "round_double 0.015 = Fin (8646911284551352 / 2 ^ 59)"
proof -
  have s: "(0.015 :: real) * 2 ^ 59 = 8646911284551352320 / 1000"
    by simp
  have "round_even (8646911284551352320 / 1000) = 8646911284551352"
    by (simp add: round_even_def Let_def)
  then show ?thesis
    using round_double_scaled [of "0.015" 59] unfolding s by simp
qed

lemma round_double_48000: "round_double 48000 = Fin 48000"
  using round_double_scaled [of 48000 37] round_even_of_int [of 6597069766656000] by simp

lemma round_double_3000000: "round_double 3000000 = Fin 3000000"
  using round_double_scaled [of 3000000 31] round_even_of_int [of 6442450944000000] by simp

lemma round_double_3000000000: "round_double 3000000000 = Fin 3000000000"
  using round_double_scaled [of 3000000000 21] round_even_of_int [of 6291456000000000] by simp

lemma round_double_1: "round_double 1 = Fin 1"
  using round_double_scaled [of 1 52] round_even_of_int [of 4503599627370496] by simp

text \<open>The double 0.015 is one of its own roundings; a thousand times it rounds up to 15.\<close>

lemma round_double_0_015_fixed:
  "round_double (8646911284551352 / 2 ^ 59) = Fin (8646911284551352 / 2 ^ 59)"
  using round_double_scaled [of "8646911284551352 / 2 ^ 59" 59]
    round_even_of_int [of 8646911284551352] by simp

lemma round_double_0_015_times_1000:
  "round_double (8646911284551352 / 2 ^ 59 * 1000) = Fin 15"
proof -
  have s: "(8646911284551352 / 2 ^ 59 * 1000 :: real) * 2 ^ 49 = 8646911284551352000 / 1024"
    by simp
  have "round_even (8646911284551352000 / 1024) = 8444249301319680"
    by (simp add: round_even_def Let_def)
  then show ?thesis
    using round_double_scaled [of "8646911284551352 / 2 ^ 59 * 1000" 49] unfolding s by simp
qed

section \<open>The presenter\<close>

lemma round_double_0: "round_double 0 = Fin 0"
  by (simp add: round_double_def)

text \<open>The audio path of \<open>renderThread_step\<close> in terms of \<open>diff\<close>.\<close>

lemma renderThread_step_audio:
  assumes "\<not> exportEnabled cfg" "audio_enabled cfg"
    and "target = (if ieee_less (Fin 0) (targetFps cfg)
                   then double_div (round_double (real (unat (m_renderedFrames st)))) (targetFps cfg)
                   else framePts frame)"
    and "diff = double_sub target (playbackTime_double ap)"
  shows "renderThread_step cfg ap elapsed frame st =
           (if ieee_less (round_double 0.01) diff then
              (case to_int (double_mul diff (Fin 1000)) of
                 None \<Rightarrow> None
               | Some ms \<Rightarrow>
                   Some (st\<lparr>events := events st @ [SleepMilliseconds ms, Present frame],
                            m_renderedFrames := m_renderedFrames st + 1\<rparr>))
            else if ieee_less diff (ieee_neg (round_double 0.05)) then
              Some (st\<lparr>m_droppedFrames := m_droppedFrames st + 1\<rparr>)
            else
              Some (st\<lparr>events := events st @ [Present frame],
                       m_renderedFrames := m_renderedFrames st + 1\<rparr>))"
  unfolding renderThread_step_def Let_def assms(3,4) using assms(1,2)
  by (simp only: if_True if_False)

text \<open>The wall-clock path.\<close>

lemma renderThread_step_wall:
  assumes "\<not> exportEnabled cfg" "\<not> audio_enabled cfg"
    and "target = (if ieee_less (Fin 0) (targetFps cfg)
                   then double_div (round_double (real (unat (m_renderedFrames st)))) (targetFps cfg)
                   else framePts frame)"
    and "diff = double_sub target elapsed"
  shows "renderThread_step cfg ap elapsed frame st =
           (if ieee_less (Fin 0) diff then
              Some (st\<lparr>events := events st @ [SleepSeconds diff, Present frame],
                       m_renderedFrames := m_renderedFrames st + 1\<rparr>)
            else
              Some (st\<lparr>events := events st @ [Present frame],
                       m_renderedFrames := m_renderedFrames st + 1\<rparr>))"
  unfolding renderThread_step_def Let_def assms(3,4) using assms(1,2)
  by (simp only: if_True if_False)

text \<open>
  A frame more than 50 ms behind the audio clock is dropped: nothing is presented, the
  dropped-frame counter grows by one and the rendered-frame counter stays.  On the wall-clock
  path every frame is presented and the dropped-frame counter never changes.
\<close>

lemma presenter_drop_policy:
  assumes "\<not> exportEnabled cfg" "audio_enabled cfg"
    and "target = (if ieee_less (Fin 0) (targetFps cfg)
                   then double_div (round_double (real (unat (m_renderedFrames st)))) (targetFps cfg)
                   else framePts frame)"
    and "diff = double_sub target (playbackTime_double ap)"
    and late: "ieee_less diff (ieee_neg (round_double 0.05))"
  shows "renderThread_step cfg ap elapsed frame st =
           Some (st\<lparr>m_droppedFrames := m_droppedFrames st + 1\<rparr>)"
proof -
  have "\<not> ieee_less (round_double 0.01) diff"
    using late unfolding round_double_0_01 round_double_0_05
    by (cases diff) (simp_all add: ieee_less_def ieee_neg_def)
  then show ?thesis
    unfolding renderThread_step_audio [OF assms(1-4)] using late by simp
qed

lemma presenter_wall_clock_never_drops:
  assumes "\<not> exportEnabled cfg" "\<not> audio_enabled cfg"
  shows "\<exists>st'. renderThread_step cfg ap elapsed frame st = Some st'
           \<and> m_droppedFrames st' = m_droppedFrames st
           \<and> m_renderedFrames st' = m_renderedFrames st + 1
           \<and> (\<exists>sleep. events st' = events st @ sleep @ [Present frame])"
proof -
  define target where "target = (if ieee_less (Fin 0) (targetFps cfg)
                   then double_div (round_double (real (unat (m_renderedFrames st)))) (targetFps cfg)
                   else framePts frame)"
  define diff where "diff = double_sub target elapsed"
  note step = renderThread_step_wall [OF assms target_def diff_def, of ap]
  show ?thesis
  proof (cases "ieee_less (Fin 0) diff")
    case True
    then have "renderThread_step cfg ap elapsed frame st
        = Some (st\<lparr>events := events st @ [SleepSeconds diff] @ [Present frame],
                   m_renderedFrames := m_renderedFrames st + 1\<rparr>)"
      using step by simp
    then show ?thesis by auto
  next
    case False
    then have "renderThread_step cfg ap elapsed frame st
        = Some (st\<lparr>events := events st @ [] @ [Present frame],
                   m_renderedFrames := m_renderedFrames st + 1\<rparr>)"
      using step by simp
    then show ?thesis by auto
  qed
qed

text \<open>
  Claim C2, evaluated on the code.  The audio clock is at 0 and a frame is due at 3000000 s (a
  stream whose timestamps start 34 days in): \<open>diff > 10 ms\<close>, and \<open>diff * 1000\<close> is
  3000000000, above \<open>INT_MAX\<close>, so \<open>static_cast<int>(diff * 1000)\<close> is undefined and the
  presenter does not sleep for \<open>diff\<close>.  The wall-clock path, handed the same frame, sleeps
  for exactly \<open>diff\<close>, since it passes the \<open>double\<close> to \<open>sleep_for\<close>.  Within the range of
  \<open>int\<close> the audio path does what the claim says: for the frame due at 0.015 s (the double
  nearest 0.015) it sleeps 15 ms and presents, and the frame due 1 s before the audio clock is
  dropped.
\<close>

theorem presenter_sleep_undefined:
  "(let ap = \<lparr>m_audioConfig = \<lparr>enabled = True, volume = 1\<rparr>, m_queue = [], m_samplesPlayed = 0,
              device_sampleRate = 48000, device_channels = 2\<rparr>;
        later = ap\<lparr>m_samplesPlayed := 48000\<rparr>;
        far = \<lparr>cols = 0, rows = 0, frameHalfBlock = False, framePts = Fin 3000000, cells = [],
               terminalString = []\<rparr>;
        near = \<lparr>cols = 0, rows = 0, frameHalfBlock = False, framePts = round_double 0.015,
                cells = [], terminalString = []\<rparr>;
        first = \<lparr>cols = 0, rows = 0, frameHalfBlock = False, framePts = Fin 0,
                 cells = [], terminalString = []\<rparr>;
        st = \<lparr>m_renderedFrames = 7, m_droppedFrames = 2, events = []\<rparr>;
        audio = \<lparr>audio_enabled = True, exportEnabled = False, targetFps = Fin 0\<rparr>;
        wall = \<lparr>audio_enabled = False, exportEnabled = False, targetFps = Fin 0\<rparr>
    in renderThread_step audio ap (Fin 0) far st = None
       \<and> renderThread_step wall ap (Fin 0) far st
           = Some \<lparr>m_renderedFrames = 8, m_droppedFrames = 2,
                   events = [SleepSeconds (Fin 3000000), Present far]\<rparr>
       \<and> renderThread_step audio ap (Fin 0) near st
           = Some \<lparr>m_renderedFrames = 8, m_droppedFrames = 2,
                   events = [SleepMilliseconds 15, Present near]\<rparr>
       \<and> renderThread_step audio later (Fin 0) first st
           = Some \<lparr>m_renderedFrames = 7, m_droppedFrames = 3, events = []\<rparr>)"
proof -
  define ap where "ap = \<lparr>m_audioConfig = \<lparr>enabled = True, volume = 1\<rparr>, m_queue = [],
    m_samplesPlayed = 0, device_sampleRate = 48000, device_channels = 2\<rparr>"
  define later where "later = ap\<lparr>m_samplesPlayed := 48000\<rparr>"
  define far where "far = \<lparr>cols = 0, rows = 0, frameHalfBlock = False, framePts = Fin 3000000,
    cells = [], terminalString = []\<rparr>"
  define near where "near = \<lparr>cols = 0, rows = 0, frameHalfBlock = False,
    framePts = round_double 0.015, cells = [], terminalString = []\<rparr>"
  define first where "first = \<lparr>cols = 0, rows = 0, frameHalfBlock = False, framePts = Fin 0,
    cells = [], terminalString = []\<rparr>"
  define st where "st = \<lparr>m_renderedFrames = 7, m_droppedFrames = 2, events = []\<rparr>"
  define audio where "audio = \<lparr>audio_enabled = True, exportEnabled = False, targetFps = Fin 0\<rparr>"
  define wall where "wall = \<lparr>audio_enabled = False, exportEnabled = False, targetFps = Fin 0\<rparr>"
  define d15 :: real where "d15 = 8646911284551352 / 2 ^ 59"
  have cfg: "\<not> exportEnabled audio" "audio_enabled audio" "\<not> exportEnabled wall"
    "\<not> audio_enabled wall"
    by (simp_all add: audio_def wall_def)
  have clock: "playbackTime_double ap = Fin 0"
    by (simp add: playbackTime_double_def ap_def round_double_0 round_double_48000 ieee_div_def
        signed_zero_def)
  have clock1: "playbackTime_double later = Fin 1"
    by (simp add: playbackTime_double_def later_def ap_def round_double_48000 ieee_div_def
        round_double_1)
  have target: "(if ieee_less (Fin 0) (targetFps c)
                 then double_div (round_double (real (unat (m_renderedFrames st)))) (targetFps c)
                 else framePts fr) = framePts fr" if "targetFps c = Fin 0" for c fr
    using that by (simp add: ieee_less_def)
  have fps: "targetFps audio = Fin 0" "targetFps wall = Fin 0"
    by (simp_all add: audio_def wall_def)

  have diff_far: "double_sub (framePts far) (Fin 0) = Fin 3000000"
    by (simp add: far_def ieee_sub_def ieee_neg_def ieee_add_def round_double_3000000)
  have far_audio: "renderThread_step audio ap (Fin 0) far st = None"
    unfolding renderThread_step_audio [OF cfg(1,2) target [OF fps(1), symmetric]
        clock [THEN arg_cong, of "double_sub (framePts far)", symmetric]]
    unfolding diff_far round_double_0_01 round_double_0_05
    by (simp add: ieee_less_def ieee_mul_def round_double_3000000000 to_int_def trunc_def
        in_int_def)
  have far_wall: "renderThread_step wall ap (Fin 0) far st
      = Some \<lparr>m_renderedFrames = 8, m_droppedFrames = 2,
              events = [SleepSeconds (Fin 3000000), Present far]\<rparr>"
    unfolding renderThread_step_wall [OF cfg(3,4) target [OF fps(2), symmetric] refl]
    by (simp add: diff_far ieee_less_def st_def)

  have near_pts: "framePts near = Fin d15"
    unfolding near_def d15_def using round_double_0_015
    by (simp only: AsciiFrame.select_convs)
  have d15: "d15 \<noteq> 0" "5764607523034235 / 2 ^ 59 < d15"
    by (simp_all add: d15_def)
  have fixed: "round_double d15 = Fin d15"
    unfolding d15_def by (rule round_double_0_015_fixed)
  have times: "round_double (d15 * 1000) = Fin 15"
    unfolding d15_def by (rule round_double_0_015_times_1000)
  have diff_near: "double_sub (Fin d15) (Fin 0) = Fin d15"
    by (simp add: ieee_sub_def ieee_neg_def ieee_add_def fixed)
  have ms_near: "double_mul (Fin d15) (Fin 1000) = Fin 15"
    using d15(1) by (simp add: ieee_mul_def times)
  have near_audio: "renderThread_step audio ap (Fin 0) near st
      = Some \<lparr>m_renderedFrames = 8, m_droppedFrames = 2,
              events = [SleepMilliseconds 15, Present near]\<rparr>"
    unfolding renderThread_step_audio [OF cfg(1,2) target [OF fps(1), symmetric]
        clock [THEN arg_cong, of "double_sub (framePts near)", symmetric]]
    unfolding near_pts diff_near ms_near round_double_0_01
    using d15(2) by (simp add: ieee_less_def to_int_def trunc_def in_int_def st_def)

  have diff_first: "double_sub (framePts first) (Fin 1) = Fin (- 1)"
    using round_double_scaled [of "- 1" 52] round_even_of_int [of "- 4503599627370496"]
    by (simp add: first_def ieee_sub_def ieee_neg_def ieee_add_def)
  have late: "renderThread_step audio later (Fin 0) first st
      = Some \<lparr>m_renderedFrames = 7, m_droppedFrames = 3, events = []\<rparr>"
    unfolding renderThread_step_audio [OF cfg(1,2) target [OF fps(1), symmetric]
        clock1 [THEN arg_cong, of "double_sub (framePts first)", symmetric]]
    unfolding diff_first round_double_0_01 round_double_0_05
    by (simp add: ieee_less_def ieee_neg_def st_def)
  show ?thesis
    using far_audio far_wall near_audio late
    unfolding Let_def ap_def [symmetric] later_def [symmetric] far_def [symmetric]
      near_def [symmetric] first_def [symmetric] st_def [symmetric] audio_def [symmetric]
      wall_def [symmetric]
    by simp
qed

section \<open>Rendering small frames\<close>

lemma xterm_palette_Suc_0: "xterm_palette ! Suc 0 = RGB 205 0 0"
  by (simp add: xterm_palette_explicit)

lemma upt_2: "[0..<2] = [0, 1]"
  by (simp add: upt_rec)

lemma replicate_2: "replicate 2 x = [x, x]"
  by (simp add: numeral_2_eq_2)

lemmas sample_defs = sampleCell_def cell_from_accum_def pixel_at_def clamp_def luminance_def
  to_uint8_def bayer_matrix_def pack_rgb_def unpack_rgb_def Let_def finite_defs

lemmas renderer_defs = configure_def buildRamp_def kRamp_def new_AsciiRenderer_def config_def
  cycleMode_def cycleDither_def adjustGamma_def adjustContrast_def

lemmas render_defs = upt_2 replicate_2 render_def render_with_def cdiv_def render_cell_def
  apply_mutations_def default_AsciiCell_def half_block_glyph_def

lemmas emit_defs = terminal_string_def emit_cell_def flushTrueColor_def to_string_def
  digits.simps digit_char_def

lemmas palette_values = xterm_index_200_10_10 xterm_index_205_0_0 xterm_index_0_0_0
  xterm_palette_Suc_0 xterm_palette_0

lemma palette_dist_200_10_10:
  "palette_dist 200 10 10 1 = 225" "palette_dist 200 10 10 (Suc 0) = 225"
  "palette_dist 200 10 10 160 = 425"
  by (simp_all add: palette_dist_def xterm_palette_Suc_0 xterm_palette_160)

text \<open>
  Claim C5 as stated fails: for the pixel (200, 10, 10) the nearest palette entry is entry 1,
  (205, 0, 0), at squared distance 225; entry 160, (215, 0, 0), is at 425.  The cell gets the
  colour of entry 1 and the terminal string carries \<open>38;5;1\<close>, not \<open>38;5;160\<close>.
\<close>

theorem ansi256_quantization_counterexample:
  "render (configure \<lparr>mode = ANSI256, dither = Off, halfBlock = False, gridCols = 1, gridRows = 1,
                      gamma = Fin 1, contrast = Fin 1\<rparr> new_AsciiRenderer)
     \<lparr>width = 1, height = 1, data = [200, 10, 10], pts = Fin 0\<rparr>
   = Inr \<lparr>cols = 1, rows = 1, frameHalfBlock = False, framePts = Fin 0,
          cells = [\<lparr>glyph = ''#'', fg = 0xCD0000, bg = 0\<rparr>],
          terminalString = esc # ''[H'' @ esc # ''[38;5;1m#'' @ esc # ''[0m'' @ [CHR 0x0D, CHR 0x0A]\<rparr>
   \<and> \<not> contains_fragment
         (esc # ''[H'' @ esc # ''[38;5;1m#'' @ esc # ''[0m'' @ [CHR 0x0D, CHR 0x0A]) ''38;5;160''
   \<and> xterm_index_from_rgb 200 10 10 = 1
   \<and> palette_dist 200 10 10 1 < palette_dist 200 10 10 160"
  by (simp add: render_defs renderer_defs sample_defs emit_defs palette_values
      palette_dist_200_10_10 esc_def)

text \<open>
  Claim C7, evaluated on the code.  A 2x2 frame of one colour, half-block on, a grid of two
  columns and one row, ANSI256 mode: both cells have the same background, and the background SGR
  \<open>ESC[48;2;205;0;0m\<close> is written for each of them, because \<open>haveColor\<close> is set in the TrueColor
  branch only.  The same grid on a black frame in TrueColor mode: \<open>haveColor\<close> is set by the
  foreground of the first cell and \<open>currentBg\<close> starts at 0, so no background SGR is written at
  all, not even for the first cell of the row.
\<close>

theorem background_sgr_repeated:
  "render (configure \<lparr>mode = ANSI256, dither = Off, halfBlock = True, gridCols = 2, gridRows = 1,
                      gamma = Fin 1, contrast = Fin 1\<rparr> new_AsciiRenderer)
     \<lparr>width = 2, height = 2, data = [200, 10, 10, 200, 10, 10, 200, 10, 10, 200, 10, 10], pts = Fin 0\<rparr>
   = Inr \<lparr>cols = 2, rows = 1, frameHalfBlock = True, framePts = Fin 0,
          cells = [\<lparr>glyph = half_block_glyph, fg = 0xCD0000, bg = 0xCD0000\<rparr>,
                   \<lparr>glyph = half_block_glyph, fg = 0xCD0000, bg = 0xCD0000\<rparr>],
          terminalString =
            esc # ''[H''
            @ esc # ''[38;5;1m'' @ esc # ''[48;2;205;0;0m'' @ half_block_glyph
            @ esc # ''[38;5;1m'' @ esc # ''[48;2;205;0;0m'' @ half_block_glyph
            @ esc # ''[0m'' @ [CHR 0x0D, CHR 0x0A]\<rparr>
   \<and> render (configure \<lparr>mode = TrueColor, dither = Off, halfBlock = True, gridCols = 2, gridRows = 1,
                      gamma = Fin 1, contrast = Fin 1\<rparr> new_AsciiRenderer)
     \<lparr>width = 2, height = 2, data = [0, 0, 0, 0, 0, 0, 0, 0, 0, 0, 0, 0], pts = Fin 0\<rparr>
   = Inr \<lparr>cols = 2, rows = 1, frameHalfBlock = True, framePts = Fin 0,
          cells = [\<lparr>glyph = half_block_glyph, fg = 0, bg = 0\<rparr>,
                   \<lparr>glyph = half_block_glyph, fg = 0, bg = 0\<rparr>],
          terminalString =
            esc # ''[H''
            @ esc # ''[38;2;0;0;0m'' @ half_block_glyph
            @ half_block_glyph
            @ esc # ''[0m'' @ [CHR 0x0D, CHR 0x0A]\<rparr>"
  by (simp add: render_defs renderer_defs sample_defs emit_defs palette_values)

text \<open>
  Claim C3, evaluated on the code.  \<open>render\<close> starts on a frame of two pixels (200, 10, 10) with
  a grid of two cells in TrueColor mode; between the first and the second call of \<open>sampleCell\<close>
  the control thread handles key \<open>2\<close>, that is \<open>configure\<close> with mode ANSI256.  The first cell is
  sampled in TrueColor mode (colour C80A0A) and the second in ANSI256 mode (colour CD0000, palette
  entry 1), while the terminal string is written in the TrueColor format of the snapshot.
  Without the interference both cells have colour C80A0A.
\<close>

theorem render_config_changes_mid_frame:
  "render_with
     (\<lambda>k. if k = 1 then [Configure \<lparr>mode = ANSI256, dither = Off, halfBlock = False, gridCols = 2,
                                     gridRows = 1, gamma = Fin 1, contrast = Fin 1\<rparr>] else [])
     (configure \<lparr>mode = TrueColor, dither = Off, halfBlock = False, gridCols = 2, gridRows = 1,
                 gamma = Fin 1, contrast = Fin 1\<rparr> new_AsciiRenderer)
     \<lparr>width = 2, height = 1, data = [200, 10, 10, 200, 10, 10], pts = Fin 0\<rparr>
   = Inr (configure \<lparr>mode = ANSI256, dither = Off, halfBlock = False, gridCols = 2, gridRows = 1,
                     gamma = Fin 1, contrast = Fin 1\<rparr> new_AsciiRenderer,
          \<lparr>cols = 2, rows = 1, frameHalfBlock = False, framePts = Fin 0,
           cells = [\<lparr>glyph = ''#'', fg = 0xC80A0A, bg = 0\<rparr>, \<lparr>glyph = ''#'', fg = 0xCD0000, bg = 0\<rparr>],
           terminalString =
             esc # ''[H'' @ esc # ''[38;2;200;10;10m#'' @ esc # ''[38;2;205;0;0m#''
             @ esc # ''[0m'' @ [CHR 0x0D, CHR 0x0A]\<rparr>)
   \<and> render
     (configure \<lparr>mode = TrueColor, dither = Off, halfBlock = False, gridCols = 2, gridRows = 1,
                 gamma = Fin 1, contrast = Fin 1\<rparr> new_AsciiRenderer)
     \<lparr>width = 2, height = 1, data = [200, 10, 10, 200, 10, 10], pts = Fin 0\<rparr>
   = Inr \<lparr>cols = 2, rows = 1, frameHalfBlock = False, framePts = Fin 0,
          cells = [\<lparr>glyph = ''#'', fg = 0xC80A0A, bg = 0\<rparr>, \<lparr>glyph = ''#'', fg = 0xC80A0A, bg = 0\<rparr>],
          terminalString =
            esc # ''[H'' @ esc # ''[38;2;200;10;10m##'' @ esc # ''[0m'' @ [CHR 0x0D, CHR 0x0A]\<rparr>"
  by (simp add: render_defs renderer_defs sample_defs emit_defs palette_values)

section \<open>Sampling a frame of one colour\<close>

lemma length_concat_replicate3: "length (concat (replicate n [a, b, c])) = 3 * n"
  by (induction n) simp_all

lemma nth_concat_replicate3:
  "i < n \<Longrightarrow> concat (replicate n [a, b, c]) ! (3 * i) = a
     \<and> concat (replicate n [a, b, c]) ! (3 * i + 1) = b
     \<and> concat (replicate n [a, b, c]) ! (3 * i + 2) = c"
proof (induction n arbitrary: i)
  case 0
  then show ?case by simp
next
  case (Suc n)
  show ?case
  proof (cases i)
    case 0
    then show ?thesis by simp
  next
    case (Suc k)
    then have "k < n" using Suc.prems by simp
    from Suc.IH [OF this] show ?thesis
      using Suc by simp
  qed
qed

lemma clamp_index: "0 < n \<Longrightarrow> 0 \<le> clamp v 0 (n - 1) \<and> clamp v 0 (n - 1) < (n :: int)"
  by (auto simp: clamp_def)

lemma pixel_index_bound:
  assumes "0 \<le> yy" "yy < h" "0 \<le> xx" "xx < w"
  shows "0 \<le> yy * w + xx \<and> yy * w + xx < w * (h :: int)"
proof -
  have "yy + 1 \<le> h" using assms by simp
  then have "(yy + 1) * w \<le> h * w"
    using assms by (intro mult_right_mono) simp_all
  then have "yy * w + xx < h * w"
    using assms by (simp add: algebra_simps)
  moreover have "0 \<le> yy * w"
    using assms by simp
  ultimately show ?thesis
    using assms by (simp add: mult.commute)
qed

lemma pixel_at_uniform:
  assumes "uniform_frame f p0 p1 p2" "0 \<le> yy" "yy < height f" "0 \<le> xx" "xx < width f"
  shows "pixel_at (data f) ((yy * width f + xx) * 3) = Some (p0, p1, p2)"
proof -
  define i where "i = nat (yy * width f + xx)"
  have range: "0 \<le> yy * width f + xx" "yy * width f + xx < width f * height f"
    using pixel_index_bound [OF assms(2-5)] by simp_all
  then have i: "i < nat (width f * height f)" and int_i: "int i = yy * width f + xx"
    by (simp_all add: i_def)
  have data: "data f = concat (replicate (nat (width f * height f)) [p0, p1, p2])"
    using assms(1) by (simp add: uniform_frame_def)
  have off: "(yy * width f + xx) * 3 = int (3 * i)"
    using int_i by simp
  have n1: "nat (int (3 * i) + 1) = 3 * i + 1" and n2: "nat (int (3 * i) + 2) = 3 * i + 2"
    by simp_all
  have "int (length (data f)) = 3 * (width f * height f)"
    using range by (simp add: data length_concat_replicate3)
  moreover have "int (3 * i) = 3 * int i"
    by simp
  ultimately have inside: "int (3 * i) + 2 < int (length (data f))"
    using int_i range by linarith
  show ?thesis
    unfolding pixel_at_def off nat_int n1 n2
    using inside nth_concat_replicate3 [OF i, of p0 p1 p2]
    by (simp flip: data)
qed

lemma pixel_offset_in_int:
  assumes "uniform_frame f p0 p1 p2" "0 \<le> yy" "yy < height f" "0 \<le> xx" "xx < width f"
  shows "in_int ((yy * width f + xx) * 3)"
proof -
  define i where "i = yy * width f + xx"
  define n where "n = width f * height f"
  have range: "0 \<le> i" "i < n"
    using pixel_index_bound [OF assms(2-5)] by (simp_all add: i_def n_def)
  have "n * 3 \<le> 2147483647"
    using assms(1) by (simp add: uniform_frame_def n_def)
  then have "- 2147483648 \<le> i * 3 \<and> i * 3 \<le> 2147483647"
    using range by linarith
  then show ?thesis
    unfolding in_int_def i_def .
qed

lemma sample_cols_uniform:
  assumes "uniform_frame f p0 p1 p2" "0 \<le> yy" "yy < height f"
  shows "sample_cols (data f) (width f) startX yy xs acc =
           Some (acc\<lparr>accumLuma := accumLuma acc + real (length xs) * luminance p0 p1 p2,
                     accumR := accumR acc + real (length xs) * real (unat p0),
                     accumG := accumG acc + real (length xs) * real (unat p1),
                     accumB := accumB acc + real (length xs) * real (unat p2),
                     count := count acc + int (length xs)\<rparr>)"
proof (induction xs arbitrary: acc)
  case Nil
  then show ?case by simp
next
  case (Cons x xs)
  have w: "0 < width f"
    using assms(1) by (simp add: uniform_frame_def)
  have px: "pixel_at (data f) ((yy * width f + clamp (startX + int x) 0 (width f - 1)) * 3)
              = Some (p0, p1, p2)"
    using pixel_at_uniform [OF assms(1-3)] clamp_index [OF w] by simp
  have ok: "in_int ((yy * width f + clamp (startX + int x) 0 (width f - 1)) * 3)"
    using pixel_offset_in_int [OF assms(1-3)] clamp_index [OF w] by simp
  have "sample_cols (data f) (width f) startX yy (x # xs) acc
          = sample_cols (data f) (width f) startX yy xs
              (acc\<lparr>accumLuma := accumLuma acc + luminance p0 p1 p2,
                    accumR := accumR acc + real (unat p0),
                    accumG := accumG acc + real (unat p1),
                    accumB := accumB acc + real (unat p2),
                    count := count acc + 1\<rparr>)"
    unfolding sample_cols.simps Let_def px using ok by simp
  also have "\<dots> = Some (acc\<lparr>accumLuma := accumLuma acc + real (length (x # xs)) * luminance p0 p1 p2,
                     accumR := accumR acc + real (length (x # xs)) * real (unat p0),
                     accumG := accumG acc + real (length (x # xs)) * real (unat p1),
                     accumB := accumB acc + real (length (x # xs)) * real (unat p2),
                     count := count acc + int (length (x # xs))\<rparr>)"
    by (simp add: Cons.IH algebra_simps)
  finally show ?case .
qed

lemma sample_rows_uniform:
  assumes "uniform_frame f p0 p1 p2"
  shows "sample_rows (data f) (width f) (height f) startX startY cellWidth ys acc =
           Some (acc\<lparr>accumLuma := accumLuma acc + real (length ys * nat cellWidth) * luminance p0 p1 p2,
                     accumR := accumR acc + real (length ys * nat cellWidth) * real (unat p0),
                     accumG := accumG acc + real (length ys * nat cellWidth) * real (unat p1),
                     accumB := accumB acc + real (length ys * nat cellWidth) * real (unat p2),
                     count := count acc + int (length ys * nat cellWidth)\<rparr>)"
proof (induction ys arbitrary: acc)
  case Nil
  then show ?case by simp
next
  case (Cons y ys)
  have h: "0 < height f"
    using assms by (simp add: uniform_frame_def)
  have row: "0 \<le> clamp (startY + int y) 0 (height f - 1)"
    "clamp (startY + int y) 0 (height f - 1) < height f"
    using clamp_index [OF h] by simp_all
  have "sample_rows (data f) (width f) (height f) startX startY cellWidth (y # ys) acc
          = sample_rows (data f) (width f) (height f) startX startY cellWidth ys
              (acc\<lparr>accumLuma := accumLuma acc + real (nat cellWidth) * luminance p0 p1 p2,
                    accumR := accumR acc + real (nat cellWidth) * real (unat p0),
                    accumG := accumG acc + real (nat cellWidth) * real (unat p1),
                    accumB := accumB acc + real (nat cellWidth) * real (unat p2),
                    count := count acc + int (nat cellWidth)\<rparr>)"
    unfolding sample_rows.simps Let_def sample_cols_uniform [OF assms row] by simp
  also have "\<dots> = Some (acc\<lparr>accumLuma := accumLuma acc + real (length (y # ys) * nat cellWidth) * luminance p0 p1 p2,
                     accumR := accumR acc + real (length (y # ys) * nat cellWidth) * real (unat p0),
                     accumG := accumG acc + real (length (y # ys) * nat cellWidth) * real (unat p1),
                     accumB := accumB acc + real (length (y # ys) * nat cellWidth) * real (unat p2),
                     count := count acc + int (length (y # ys) * nat cellWidth)\<rparr>)"
    by (simp add: Cons.IH algebra_simps)
  finally show ?case .
qed

text \<open>Only the four averages of the sums enter the cell.\<close>

lemma cell_from_accum_scaled:
  assumes "0 < n"
  shows "cell_from_accum rd
           \<lparr>accumLuma = real n * l, accumR = real n * a, accumG = real n * b, accumB = real n * c,
            count = int n\<rparr> row col
         = cell_from_accum rd \<lparr>accumLuma = l, accumR = a, accumG = b, accumB = c, count = 1\<rparr> row col"
proof -
  have m: "max 1 (int n) = int n"
    using assms by simp
  have d: "real n * x / real_of_int (int n) = x" for x
    using assms by simp
  show ?thesis
    unfolding cell_from_accum_def by (simp only: Accum.simps m d max.idem of_int_1 div_by_1)
qed

text \<open>Any cell rectangle of a frame of one colour is sampled like the one pixel of a 1x1 frame.\<close>

lemma sampleCell_uniform:
  assumes "uniform_frame f p0 p1 p2" "1 \<le> cellWidth" "1 \<le> cellHeight"
  shows "sampleCell rd (data f) (width f) (height f) startX startY cellWidth cellHeight row col
         = cell_from_accum rd
                   \<lparr>accumLuma = luminance p0 p1 p2, accumR = real (unat p0), accumG = real (unat p1),
                    accumB = real (unat p2), count = 1\<rparr> row col"
proof -
  define n where "n = nat cellHeight * nat cellWidth"
  have n: "0 < n"
    using assms(2,3) by (simp add: n_def)
  have "sample_rows (data f) (width f) (height f) startX startY cellWidth [0..<nat cellHeight]
          \<lparr>accumLuma = 0, accumR = 0, accumG = 0, accumB = 0, count = 0\<rparr>
        = Some \<lparr>accumLuma = real n * luminance p0 p1 p2, accumR = real n * real (unat p0),
                accumG = real n * real (unat p1), accumB = real n * real (unat p2), count = int n\<rparr>"
    by (simp add: sample_rows_uniform [OF assms(1)] n_def)
  then show ?thesis
    by (simp add: sampleCell_def cell_from_accum_scaled [OF n])
qed

section \<open>The loops of render over the grid\<close>

text \<open>
  What a run of the inner loop leaves in the cell vector, from what each turn leaves: \<open>P\<close> is kept
  by the renderer, \<open>Q\<close> holds of every cell written.
\<close>

lemma cell_cols_cells:
  assumes step: "\<And>x st st'. x \<in> set xs \<Longrightarrow> P (fst st)
            \<Longrightarrow> render_cell env cfg frame cw ch y x st = Inr st'
            \<Longrightarrow> P (fst st') \<and> (\<exists>c. Q c \<and> snd (snd st')
                    = (snd (snd st))[nat (int y * gridCols cfg + int x) := c])"
    and start: "P (fst st)"
    and run: "cell_cols env cfg frame cw ch y xs st = Inr st'"
  shows "P (fst st') \<and> length (snd (snd st')) = length (snd (snd st))
         \<and> (\<forall>i<length (snd (snd st)).
               (i \<in> (\<lambda>x. nat (int y * gridCols cfg + int x)) ` set xs \<longrightarrow> Q (snd (snd st') ! i))
               \<and> (i \<notin> (\<lambda>x. nat (int y * gridCols cfg + int x)) ` set xs
                    \<longrightarrow> snd (snd st') ! i = snd (snd st) ! i))"
  using assms
proof (induction xs arbitrary: st)
  case Nil
  then show ?case by simp
next
  case (Cons x xs)
  from Cons.prems(3) obtain st1 where
    first: "render_cell env cfg frame cw ch y x st = Inr st1"
    and rest: "cell_cols env cfg frame cw ch y xs st1 = Inr st'"
    by (auto split: sum.splits)
  from Cons.prems(1) [OF _ Cons.prems(2) first] obtain c where
    p1: "P (fst st1)" and c: "Q c"
    and cs1: "snd (snd st1) = (snd (snd st))[nat (int y * gridCols cfg + int x) := c]"
    by auto
  have tail: "P (fst t') \<and> (\<exists>c. Q c \<and> snd (snd t')
                    = (snd (snd t))[nat (int y * gridCols cfg + int x') := c])"
    if "x' \<in> set xs" "P (fst t)" "render_cell env cfg frame cw ch y x' t = Inr t'" for x' t t'
    using Cons.prems(1) [of x' t t'] that by simp
  note ih = Cons.IH [OF tail p1 rest]
  have len: "length (snd (snd st1)) = length (snd (snd st))"
    by (simp add: cs1)
  have ihP: "P (fst st')" and ihL: "length (snd (snd st')) = length (snd (snd st))"
    and ihQ: "\<And>j. j < length (snd (snd st))
               \<Longrightarrow> j \<in> (\<lambda>x. nat (int y * gridCols cfg + int x)) ` set xs \<Longrightarrow> Q (snd (snd st') ! j)"
    and ihS: "\<And>j. j < length (snd (snd st))
               \<Longrightarrow> j \<notin> (\<lambda>x. nat (int y * gridCols cfg + int x)) ` set xs
               \<Longrightarrow> snd (snd st') ! j = snd (snd st1) ! j"
    using ih unfolding len by blast+
  have img: "(\<lambda>x. nat (int y * gridCols cfg + int x)) ` set (x # xs)
               = insert (nat (int y * gridCols cfg + int x))
                   ((\<lambda>x. nat (int y * gridCols cfg + int x)) ` set xs)"
    by simp
  have "(i \<in> (\<lambda>x. nat (int y * gridCols cfg + int x)) ` set (x # xs) \<longrightarrow> Q (snd (snd st') ! i))
        \<and> (i \<notin> (\<lambda>x. nat (int y * gridCols cfg + int x)) ` set (x # xs)
              \<longrightarrow> snd (snd st') ! i = snd (snd st) ! i)"
    if i: "i < length (snd (snd st))" for i
  proof (cases "i \<in> (\<lambda>x. nat (int y * gridCols cfg + int x)) ` set xs")
    case True
    from ihQ [OF i True] True show ?thesis
      unfolding img by blast
  next
    case False
    note same = ihS [OF i False]
    show ?thesis
    proof (cases "i = nat (int y * gridCols cfg + int x)")
      case True
      have "snd (snd st1) ! i = c"
        unfolding cs1 True using i True by (simp only: nth_list_update_eq)
      with same c True show ?thesis
        unfolding img by (simp only: insertI1 simp_thms)
    next
      case neq: False
      have "snd (snd st1) ! i = snd (snd st) ! i"
        unfolding cs1 using neq by (simp only: nth_list_update_neq not_sym)
      with same False neq show ?thesis
        unfolding img by (simp only: insert_iff simp_thms)
    qed
  qed
  then show ?case
    using ihP ihL by blast
qed

lemma cell_rows_cells:
  assumes step: "\<And>y x st st'. y \<in> set ys \<Longrightarrow> x < nat (gridCols cfg) \<Longrightarrow> P (fst st)
            \<Longrightarrow> render_cell env cfg frame cw ch y x st = Inr st'
            \<Longrightarrow> P (fst st') \<and> (\<exists>c. Q c \<and> snd (snd st')
                    = (snd (snd st))[nat (int y * gridCols cfg + int x) := c])"
    and start: "P (fst st)"
    and run: "cell_rows env cfg frame cw ch ys st = Inr st'"
  shows "P (fst st') \<and> length (snd (snd st')) = length (snd (snd st))
         \<and> (\<forall>i<length (snd (snd st)).
               ((\<exists>y\<in>set ys. \<exists>x<nat (gridCols cfg). i = nat (int y * gridCols cfg + int x))
                  \<longrightarrow> Q (snd (snd st') ! i))
               \<and> (\<not> (\<exists>y\<in>set ys. \<exists>x<nat (gridCols cfg). i = nat (int y * gridCols cfg + int x))
                  \<longrightarrow> snd (snd st') ! i = snd (snd st) ! i))"
  using assms
proof (induction ys arbitrary: st)
  case Nil
  then show ?case by simp
next
  case (Cons y ys)
  from Cons.prems(3) obtain st1 where
    first: "cell_cols env cfg frame cw ch y [0..<nat (gridCols cfg)] st = Inr st1"
    and rest: "cell_rows env cfg frame cw ch ys st1 = Inr st'"
    by (auto split: sum.splits)
  have head: "P (fst t') \<and> (\<exists>c. Q c \<and> snd (snd t')
                    = (snd (snd t))[nat (int y * gridCols cfg + int x) := c])"
    if "x \<in> set [0..<nat (gridCols cfg)]" "P (fst t)"
      "render_cell env cfg frame cw ch y x t = Inr t'" for x t t'
    using Cons.prems(1) [of y x t t'] that by simp
  note row = cell_cols_cells [where P = P and Q = Q, OF head Cons.prems(2) first]
  have rowP: "P (fst st1)" and len: "length (snd (snd st1)) = length (snd (snd st))"
    and rowQ: "\<And>j. j < length (snd (snd st))
               \<Longrightarrow> j \<in> (\<lambda>x. nat (int y * gridCols cfg + int x)) ` set [0..<nat (gridCols cfg)]
               \<Longrightarrow> Q (snd (snd st1) ! j)"
    and rowS: "\<And>j. j < length (snd (snd st))
               \<Longrightarrow> j \<notin> (\<lambda>x. nat (int y * gridCols cfg + int x)) ` set [0..<nat (gridCols cfg)]
               \<Longrightarrow> snd (snd st1) ! j = snd (snd st) ! j"
    using row by blast+
  have tail: "P (fst t') \<and> (\<exists>c. Q c \<and> snd (snd t')
                    = (snd (snd t))[nat (int y' * gridCols cfg + int x) := c])"
    if "y' \<in> set ys" "x < nat (gridCols cfg)" "P (fst t)"
      "render_cell env cfg frame cw ch y' x t = Inr t'" for y' x t t'
    using Cons.prems(1) [of y' x t t'] that by simp
  note ih = Cons.IH [OF tail rowP rest]
  have ihP: "P (fst st')" and ihL: "length (snd (snd st')) = length (snd (snd st))"
    and ihQ: "\<And>j. j < length (snd (snd st))
               \<Longrightarrow> \<exists>y\<in>set ys. \<exists>x<nat (gridCols cfg). j = nat (int y * gridCols cfg + int x)
               \<Longrightarrow> Q (snd (snd st') ! j)"
    and ihS: "\<And>j. j < length (snd (snd st))
               \<Longrightarrow> \<not> (\<exists>y\<in>set ys. \<exists>x<nat (gridCols cfg). j = nat (int y * gridCols cfg + int x))
               \<Longrightarrow> snd (snd st') ! j = snd (snd st1) ! j"
    using ih unfolding len by blast+
  have in_row: "i \<in> (\<lambda>x. nat (int y * gridCols cfg + int x)) ` set [0..<nat (gridCols cfg)]
                 \<longleftrightarrow> (\<exists>x<nat (gridCols cfg). i = nat (int y * gridCols cfg + int x))" for i
    by auto
  have written: "(\<exists>y'\<in>set (y # ys). \<exists>x<nat (gridCols cfg). i = nat (int y' * gridCols cfg + int x))
                 \<longleftrightarrow> (\<exists>x<nat (gridCols cfg). i = nat (int y * gridCols cfg + int x))
                      \<or> (\<exists>y'\<in>set ys. \<exists>x<nat (gridCols cfg). i = nat (int y' * gridCols cfg + int x))"
    for i
    by auto
  have "((\<exists>y'\<in>set (y # ys). \<exists>x<nat (gridCols cfg). i = nat (int y' * gridCols cfg + int x))
            \<longrightarrow> Q (snd (snd st') ! i))
        \<and> (\<not> (\<exists>y'\<in>set (y # ys). \<exists>x<nat (gridCols cfg). i = nat (int y' * gridCols cfg + int x))
            \<longrightarrow> snd (snd st') ! i = snd (snd st) ! i)"
    if i: "i < length (snd (snd st))" for i
  proof (cases "\<exists>y'\<in>set ys. \<exists>x<nat (gridCols cfg). i = nat (int y' * gridCols cfg + int x)")
    case True
    from ihQ [OF i True] True show ?thesis
      unfolding written by blast
  next
    case False
    note same = ihS [OF i False]
    show ?thesis
    proof (cases "\<exists>x<nat (gridCols cfg). i = nat (int y * gridCols cfg + int x)")
      case True
      then have "Q (snd (snd st1) ! i)"
        using rowQ [OF i] in_row by blast
      with same True show ?thesis
        unfolding written by (simp only: simp_thms)
    next
      case none: False
      then have "snd (snd st1) ! i = snd (snd st) ! i"
        using rowS [OF i] in_row by blast
      with same False none show ?thesis
        unfolding written by (simp only: simp_thms)
    qed
  qed
  then show ?case
    using ihP ihL by blast
qed

text \<open>Every index of a grid of \<open>c\<close> columns and \<open>r\<close> rows is the index of a cell.\<close>

lemma grid_index:
  assumes "0 < c" and "i < nat (c * r)"
  shows "\<exists>y<nat r. \<exists>x<nat c. i = nat (int y * c + int x)"
proof -
  have r: "0 < r"
  proof (rule ccontr)
    assume "\<not> 0 < r"
    then have "c * r \<le> 0"
      using assms(1) by (simp add: mult_nonneg_nonpos)
    then show False
      using assms(2) by simp
  qed
  have split: "nat (c * r) = nat r * nat c"
    using assms(1) r by (simp add: nat_mult_distrib mult.commute)
  have "i div nat c < nat r"
    using assms split by (simp add: less_mult_imp_div_less)
  moreover have "i mod nat c < nat c"
    using assms(1) by simp
  moreover have "i = nat (int (i div nat c) * c + int (i mod nat c))"
  proof -
    have c: "int (nat c) = c"
      using assms(1) by simp
    have "int (i div nat c) * c + int (i mod nat c)
            = int (i div nat c) * int (nat c) + int (i mod nat c)"
      by (simp only: c)
    also have "\<dots> = int (i div nat c * nat c + i mod nat c)"
      by (simp only: of_nat_add of_nat_mult)
    also have "\<dots> = int i"
      by (simp only: div_mult_mod_eq)
    finally have "int (i div nat c) * c + int (i mod nat c) = int i" .
    then show ?thesis
      by (simp only: nat_int)
  qed
  ultimately show ?thesis
    by blast
qed

text \<open>
  A frame that \<open>render_with\<close> returns: its grid is the snapshot's, and \<open>Q\<close> holds of every cell
  of the grid when it holds of every cell that a turn of the loops writes.
\<close>

lemma render_with_cells:
  assumes step: "\<And>y x cw ch st st'. 1 \<le> cw \<Longrightarrow> 1 \<le> ch \<Longrightarrow> P (fst st)
            \<Longrightarrow> render_cell env (config rd) frame cw ch y x st = Inr st'
            \<Longrightarrow> P (fst st') \<and> (\<exists>c. Q c \<and> snd (snd st')
                    = (snd (snd st))[nat (int y * gridCols (config rd) + int x) := c])"
    and start: "P rd"
    and run: "render_with env rd frame = Inr (rd', af)"
  shows "cols af = gridCols (config rd) \<and> rows af = gridRows (config rd)
         \<and> frameHalfBlock af = halfBlock (config rd) \<and> framePts af = pts frame
         \<and> length (cells af) = nat (cols af * rows af)
         \<and> terminalString af = terminal_string (config rd) (cols af) (rows af) (cells af)
         \<and> (\<forall>y<nat (rows af). \<forall>x<nat (cols af).
               nat (int y * cols af + int x) < length (cells af)
               \<longrightarrow> Q (cells af ! nat (int y * cols af + int x)))"
proof -
  define cfg where "cfg = config rd"
  define cw where "cw = max 1 (cdiv (width frame) (gridCols cfg))"
  define ch where "ch = max 1 (cdiv (height frame)
      (if halfBlock cfg then gridRows cfg * 2 else gridRows cfg))"
  define cs0 where "cs0 = replicate (nat (gridCols cfg * gridRows cfg)) default_AsciiCell"
  have run': "(if \<not> in_int (gridCols cfg * gridRows cfg) then Inl IntOverflow
               else if gridCols cfg * gridRows cfg < 0 then Inl BadAlloc
               else if \<not> in_int (if halfBlock cfg then gridRows cfg * 2 else gridRows cfg)
               then Inl IntOverflow
               else if gridCols cfg = 0
                        \<or> (if halfBlock cfg then gridRows cfg * 2 else gridRows cfg) = 0
               then Inl DivideByZero
               else case cell_rows env cfg frame cw ch [0..<nat (gridRows cfg)] (rd, 0, cs0) of
                      Inl e \<Rightarrow> Inl e
                    | Inr (rd', k, cs) \<Rightarrow>
                        if \<not> in_int (gridCols cfg * gridRows cfg * 8) then Inl IntOverflow
                        else
                        Inr (rd', \<lparr>cols = gridCols cfg, rows = gridRows cfg,
                                  frameHalfBlock = halfBlock cfg, framePts = pts frame, cells = cs,
                                  terminalString = terminal_string cfg (gridCols cfg) (gridRows cfg) cs\<rparr>))
              = Inr (rd', af)"
    using run unfolding render_with_def Let_def cfg_def cw_def ch_def cs0_def .
  obtain res where res: "cell_rows env cfg frame cw ch [0..<nat (gridRows cfg)] (rd, 0, cs0) = res"
    by simp
  have "\<exists>k cs. res = Inr (rd', k, cs)
          \<and> af = \<lparr>cols = gridCols cfg, rows = gridRows cfg, frameHalfBlock = halfBlock cfg,
                   framePts = pts frame, cells = cs,
                   terminalString = terminal_string cfg (gridCols cfg) (gridRows cfg) cs\<rparr>"
  proof (cases res)
    case (Inl e)
    then show ?thesis
      using run' unfolding res by (simp split: if_splits)
  next
    case (Inr t)
    obtain r1 k1 c1 where t: "t = (r1, k1, c1)"
      by (cases t)
    show ?thesis
      using run' unfolding res Inr t by (simp split: if_splits)
  qed
  then obtain k cs where
    loops: "cell_rows env cfg frame cw ch [0..<nat (gridRows cfg)] (rd, 0, cs0) = Inr (rd', k, cs)"
    and af: "af = \<lparr>cols = gridCols cfg, rows = gridRows cfg, frameHalfBlock = halfBlock cfg,
                   framePts = pts frame, cells = cs,
                   terminalString = terminal_string cfg (gridCols cfg) (gridRows cfg) cs\<rparr>"
    unfolding res by blast
  have each: "P (fst t') \<and> (\<exists>c. Q c \<and> snd (snd t')
                    = (snd (snd t))[nat (int y * gridCols cfg + int x) := c])"
    if "y \<in> set [0..<nat (gridRows cfg)]" "x < nat (gridCols cfg)" "P (fst t)"
      "render_cell env cfg frame cw ch y x t = Inr t'" for y x t t'
    using step [OF _ _ that(3) that(4) [unfolded cfg_def]] unfolding cfg_def cw_def ch_def
    by simp
  have p0: "P (fst (rd, 0 :: nat, cs0))"
    using start by simp
  note inv = cell_rows_cells [where P = P and Q = Q, OF each p0 loops]
  have invL: "length cs = length cs0"
    and invQ: "\<And>i. i < length cs0
                \<Longrightarrow> \<exists>y\<in>set [0..<nat (gridRows cfg)]. \<exists>x<nat (gridCols cfg).
                       i = nat (int y * gridCols cfg + int x)
                \<Longrightarrow> Q (cs ! i)"
    using inv unfolding fst_conv snd_conv by blast+
  have len: "length cs = nat (gridCols cfg * gridRows cfg)"
    unfolding invL by (simp add: cs0_def)
  have all: "Q (cs ! nat (int y * gridCols cfg + int x))"
    if "y < nat (gridRows cfg)" "x < nat (gridCols cfg)"
      "nat (int y * gridCols cfg + int x) < length cs" for y x
  proof -
    have "y \<in> set [0..<nat (gridRows cfg)]"
      using that(1) by simp
    then have "\<exists>y'\<in>set [0..<nat (gridRows cfg)]. \<exists>x'<nat (gridCols cfg).
            nat (int y * gridCols cfg + int x) = nat (int y' * gridCols cfg + int x')"
      using that(2) by blast
    moreover have "nat (int y * gridCols cfg + int x) < length cs0"
      using that(3) unfolding invL .
    ultimately show ?thesis
      by (rule invQ [rotated])
  qed
  have fields: "cols af = gridCols cfg" "rows af = gridRows cfg"
    "frameHalfBlock af = halfBlock cfg" "framePts af = pts frame" "cells af = cs"
    "terminalString af = terminal_string cfg (gridCols cfg) (gridRows cfg) cs"
    by (simp_all add: af)
  show ?thesis
    unfolding fields cfg_def [symmetric] using len all by blast
qed

text \<open>The loops end without an error when every turn does.\<close>

lemma cell_cols_total:
  assumes step: "\<And>x st. P (fst st)
            \<Longrightarrow> \<exists>st'. render_cell env cfg frame cw ch y x st = Inr st' \<and> P (fst st')"
    and start: "P (fst st)"
  shows "\<exists>st'. cell_cols env cfg frame cw ch y xs st = Inr st' \<and> P (fst st')"
  using start
proof (induction xs arbitrary: st)
  case Nil
  then show ?case by simp
next
  case (Cons x xs)
  from step [OF Cons.prems] obtain st1 where
    first: "render_cell env cfg frame cw ch y x st = Inr st1" and p1: "P (fst st1)"
    by blast
  from Cons.IH [OF p1] show ?case
    by (simp add: first)
qed

lemma cell_rows_total:
  assumes step: "\<And>y x st. P (fst st)
            \<Longrightarrow> \<exists>st'. render_cell env cfg frame cw ch y x st = Inr st' \<and> P (fst st')"
    and start: "P (fst st)"
  shows "\<exists>st'. cell_rows env cfg frame cw ch ys st = Inr st' \<and> P (fst st')"
  using start
proof (induction ys arbitrary: st)
  case Nil
  then show ?case by simp
next
  case (Cons y ys)
  from cell_cols_total [where P = P, OF step Cons.prems] obtain st1 where
    first: "cell_cols env cfg frame cw ch y [0..<nat (gridCols cfg)] st = Inr st1"
    and p1: "P (fst st1)"
    by blast
  from Cons.IH [OF p1] show ?case
    by (simp add: first)
qed

text \<open>The bound on the grid under which no product of \<open>render\<close> leaves the range of \<open>int\<close>.\<close>

lemma grid_in_int:
  assumes "0 < c" "0 < r" "c * r * 8 \<le> 2147483647"
  shows "in_int (c * r)" "in_int (r * 2)" "in_int r" "in_int (c * r * 8)"
proof -
  define n where "n = c * r"
  have "1 * r \<le> c * r"
    using assms(1,2) by (intro mult_right_mono) simp_all
  then have r: "r \<le> n"
    by (simp add: n_def)
  have n: "n * 8 \<le> 2147483647"
    using assms(3) by (simp add: n_def)
  have "- 2147483648 \<le> n \<and> n \<le> 2147483647" "- 2147483648 \<le> r * 2 \<and> r * 2 \<le> 2147483647"
    "- 2147483648 \<le> r \<and> r \<le> 2147483647" "- 2147483648 \<le> n * 8 \<and> n * 8 \<le> 2147483647"
    using r n assms(2) by linarith+
  then show "in_int (c * r)" "in_int (r * 2)" "in_int r" "in_int (c * r * 8)"
    unfolding in_int_def n_def by simp_all
qed

lemma render_with_total:
  assumes step: "\<And>y x cw ch st. 1 \<le> cw \<Longrightarrow> 1 \<le> ch \<Longrightarrow> P (fst st)
            \<Longrightarrow> \<exists>st'. render_cell env (config rd) frame cw ch y x st = Inr st' \<and> P (fst st')"
    and start: "P rd"
    and grid: "0 < gridCols (config rd)" "0 < gridRows (config rd)"
      "gridCols (config rd) * gridRows (config rd) * 8 \<le> 2147483647"
  shows "\<exists>rd' af. render_with env rd frame = Inr (rd', af)"
proof -
  define cfg where "cfg = config rd"
  define cw where "cw = max 1 (cdiv (width frame) (gridCols cfg))"
  define ch where "ch = max 1 (cdiv (height frame)
      (if halfBlock cfg then gridRows cfg * 2 else gridRows cfg))"
  define cs0 where "cs0 = replicate (nat (gridCols cfg * gridRows cfg)) default_AsciiCell"
  have each: "\<exists>t'. render_cell env cfg frame cw ch y x t = Inr t' \<and> P (fst t')"
    if "P (fst t)" for y x t
    using step [OF _ _ that] unfolding cfg_def cw_def ch_def by simp
  have p0: "P (fst (rd, 0 :: nat, cs0))"
    using start by simp
  from cell_rows_total [where P = P, OF each p0] obtain t' where
    "cell_rows env cfg frame cw ch [0..<nat (gridRows cfg)] (rd, 0, cs0) = Inr t'"
    by blast
  moreover obtain r1 k1 c1 where "t' = (r1, k1, c1)"
    by (cases t')
  moreover note grid_in_int [OF grid]
  moreover have "\<not> gridCols cfg * gridRows cfg < 0"
    using grid by (simp add: cfg_def mult_nonneg_nonneg not_less)
  moreover have "gridCols cfg \<noteq> 0" "gridRows cfg \<noteq> 0"
    using grid by (simp_all add: cfg_def)
  ultimately show ?thesis
    unfolding render_with_def Let_def cfg_def cw_def ch_def cs0_def
    by (cases "halfBlock (config rd)") simp_all
qed

section \<open>Rendering a frame of one colour\<close>

lemma render_cell_uniform:
  assumes "uniform_frame f p0 p1 p2" "1 \<le> cw" "1 \<le> ch"
    and ok: "\<And>row col. cell_from_accum rd (one_pixel_accum p0 p1 p2) row col = Inr (C row col)"
  shows "render_cell (\<lambda>k. []) cfg f cw ch y x (rd, k, cs) =
           Inr (rd, (if halfBlock cfg then k + 2 else k + 1),
                cs[nat (int y * gridCols cfg + int x) :=
                     (if halfBlock cfg
                      then (C (int y) (int x))
                             \<lparr>glyph := half_block_glyph, bg := fg (C (int y) (int x)),
                              fg := fg (C (int y + 1) (int x))\<rparr>
                      else C (int y) (int x))])"
proof -
  have samp: "sampleCell rd (data f) (width f) (height f) sx sy cw ch row col = Inr (C row col)"
    for sx sy row col
    unfolding sampleCell_uniform [OF assms(1-3)] using ok [of row col]
    by (simp add: one_pixel_accum_def)
  show ?thesis
    unfolding render_cell_def apply_mutations_def
    by (simp add: samp Let_def)
qed

lemma bayer_threshold_less_1:
  assumes "0 \<le> row" "0 \<le> col"
  shows "(if bm_size (bayer_matrix d) > 1
          then thresholds (bayer_matrix d) !
                 nat ((row mod bm_size (bayer_matrix d)) * bm_size (bayer_matrix d)
                      + (col mod bm_size (bayer_matrix d)))
          else 0) < (1 :: real)"
proof (cases d)
  case Off
  then show ?thesis by (simp add: bayer_matrix_def)
next
  case Bayer2
  have "nat ((row mod 2) * 2 + col mod 2) < 4"
    using assms by simp
  then have "[0 / 4, 2 / 4, 3 / 4, 1 / 4 :: real] ! nat ((row mod 2) * 2 + col mod 2)
               \<in> set [0 / 4, 2 / 4, 3 / 4, 1 / 4 :: real]"
    by (intro nth_mem) simp
  then show ?thesis
    using Bayer2 by (auto simp: bayer_matrix_def)
next
  case Bayer4
  have "nat ((row mod 4) * 4 + col mod 4) < 16"
    using assms by simp
  then have "[0 / 16, 8 / 16, 2 / 16, 10 / 16, 12 / 16, 4 / 16, 14 / 16, 6 / 16,
              3 / 16, 11 / 16, 1 / 16, 9 / 16, 15 / 16, 7 / 16, 13 / 16, 5 / 16 :: real]
               ! nat ((row mod 4) * 4 + col mod 4)
               \<in> set [0 / 16, 8 / 16, 2 / 16, 10 / 16, 12 / 16, 4 / 16, 14 / 16, 6 / 16,
              3 / 16, 11 / 16, 1 / 16, 9 / 16, 15 / 16, 7 / 16, 13 / 16, 5 / 16 :: real]"
    by (intro nth_mem) simp
  then show ?thesis
    using Bayer4 by (auto simp: bayer_matrix_def)
qed

lemma black_cell_colours:
  "fg (cell_of_normalized rd n (one_pixel_accum 0 0 0) row col) = 0
   \<and> bg (cell_of_normalized rd n (one_pixel_accum 0 0 0) row col) = 0"
  by (cases "mode (m_config rd)")
     (simp_all add: cell_of_normalized_def one_pixel_accum_def luminance_def to_uint8_def
       pack_rgb_def Let_def xterm_index_0_0_0 xterm_palette_0)

lemma black_cell_glyph:
  assumes "m_ramp rd = kRamp" "0 \<le> row" "0 \<le> col"
  shows "glyph (cell_of_normalized rd 0 (one_pixel_accum 0 0 0) row col) = ''@''"
proof -
  have idx: "clamp 0 0 (int (length kRamp) - 1) = 0"
    by (simp add: clamp_def kRamp_def)
  have thr: "\<not> 1 < 0 + (if bm_size (bayer_matrix (dither (m_config rd))) > 1
          then thresholds (bayer_matrix (dither (m_config rd))) !
                 nat ((row mod bm_size (bayer_matrix (dither (m_config rd))))
                        * bm_size (bayer_matrix (dither (m_config rd)))
                      + (col mod bm_size (bayer_matrix (dither (m_config rd)))))
          else (0 :: real))"
    using bayer_threshold_less_1 [OF assms(2,3), of "dither (m_config rd)"] by simp
  have first: "kRamp ! 0 = CHR ''@''"
    by (simp add: kRamp_def)
  show ?thesis
    unfolding cell_of_normalized_def one_pixel_accum_def Let_def
    using thr
    by (cases "mode (m_config rd)")
       (simp_all add: assms(1) idx first)
qed

text \<open>
  The cell of a black rectangle: defined unless gamma or contrast is a NaN, black, and \<open>@\<close>
  with contrast 1 and a finite gamma above zero.
\<close>

lemma black_cell:
  assumes "gamma (m_config rd) \<noteq> NaN" "contrast (m_config rd) \<noteq> NaN" "m_ramp rd = kRamp"
  shows "\<exists>c. cell_from_accum rd (one_pixel_accum 0 0 0) row col = Inr c \<and> fg c = 0 \<and> bg c = 0
           \<and> (contrast (m_config rd) = Fin 1 \<and> is_finite (gamma (m_config rd))
                \<and> 0 < value_of (gamma (m_config rd)) \<and> 0 \<le> row \<and> 0 \<le> col
              \<longrightarrow> glyph c = ''@'')"
proof -
  have luma: "accumLuma (one_pixel_accum 0 0 0) = 0"
    by (simp add: one_pixel_accum_def luminance_def)
  from normalized_range [OF assms(1,2), of "one_pixel_accum 0 0 0"] luma obtain n where
    n: "normalized_of rd (one_pixel_accum 0 0 0) = Fin n" "0 \<le> n" "n \<le> 1"
    by auto
  note cell = cell_from_accum_finite [OF n assms(3), of row col]
  have "n = 0"
    if one: "contrast (m_config rd) = Fin 1" and fin: "is_finite (gamma (m_config rd))"
      and pos: "0 < value_of (gamma (m_config rd))"
  proof -
    obtain g where g: "gamma (m_config rd) = Fin g" "0 < g"
      using fin pos by (cases "gamma (m_config rd)") auto
    have "normalized_of rd (one_pixel_accum 0 0 0) = Fin 0"
      unfolding normalized_of_def luma g(1) one
      by (simp add: apply_gamma_finite [OF g(2)] apply_contrast_finite clamp_def)
    with n(1) show ?thesis by simp
  qed
  then show ?thesis
    using cell black_cell_colours [of rd n row col] black_cell_glyph [OF assms(3), of row col]
    by auto
qed

lemma render_uniform:
  assumes frame: "uniform_frame f p0 p1 p2"
    and grid: "0 < gridCols (config rd)" "0 < gridRows (config rd)"
      "gridCols (config rd) * gridRows (config rd) * 8 \<le> 2147483647"
    and ok: "\<And>row col. cell_from_accum rd (one_pixel_accum p0 p1 p2) row col = Inr (C row col)"
    and cell: "\<And>row col. 0 \<le> row \<Longrightarrow> 0 \<le> col \<Longrightarrow>
       Q (if halfBlock (config rd)
          then (C row col)\<lparr>glyph := half_block_glyph, bg := fg (C row col),
                              fg := fg (C (row + 1) col)\<rparr>
          else C row col)"
  shows "\<exists>af. render rd f = Inr af
           \<and> cols af = gridCols (config rd) \<and> rows af = gridRows (config rd)
           \<and> frameHalfBlock af = halfBlock (config rd) \<and> framePts af = pts f
           \<and> length (cells af) = nat (cols af * rows af)
           \<and> terminalString af = terminal_string (config rd) (cols af) (rows af) (cells af)
           \<and> (\<forall>c\<in>set (cells af). Q c)"
proof -
  have total: "\<exists>st'. render_cell (\<lambda>k. []) (config rd) f cw ch y x st = Inr st' \<and> fst st' = rd"
    if cw: "1 \<le> cw" and ch: "1 \<le> ch" and r: "fst st = rd" for y x cw ch st
  proof -
    obtain k cs where st: "st = (rd, k, cs)"
      using r by (cases st) auto
    note cell_eq = render_cell_uniform [where C = C, OF frame cw ch ok]
    show ?thesis
      unfolding st cell_eq by simp
  qed
  have step: "fst st' = rd \<and> (\<exists>c. Q c \<and> snd (snd st')
                = (snd (snd st))[nat (int y * gridCols (config rd) + int x) := c])"
    if cw: "1 \<le> cw" and ch: "1 \<le> ch" and r: "fst st = rd"
      and run: "render_cell (\<lambda>k. []) (config rd) f cw ch y x st = Inr st'"
    for y x cw ch st st'
  proof -
    obtain k cs where st: "st = (rd, k, cs)"
      using r by (cases st) auto
    note cell_eq = render_cell_uniform [where C = C, OF frame cw ch ok]
    show ?thesis
      using run cell [of "int y" "int x"]
      unfolding st cell_eq by auto
  qed
  have "\<exists>rd' af. render_with (\<lambda>k. []) rd f = Inr (rd', af)"
  proof (rule render_with_total [where P = "\<lambda>r. r = rd", OF _ refl grid])
    fix y x :: nat and cw ch :: int and st :: "AsciiRenderer \<times> nat \<times> AsciiCell list"
    assume "1 \<le> cw" "1 \<le> ch" "fst st = rd"
    then show "\<exists>st'. render_cell (\<lambda>k. []) (config rd) f cw ch y x st = Inr st' \<and> fst st' = rd"
      by (rule total)
  qed
  then obtain rd' af where run: "render_with (\<lambda>k. []) rd f = Inr (rd', af)"
    by blast
  have facts: "cols af = gridCols (config rd) \<and> rows af = gridRows (config rd)
         \<and> frameHalfBlock af = halfBlock (config rd) \<and> framePts af = pts f
         \<and> length (cells af) = nat (cols af * rows af)
         \<and> terminalString af = terminal_string (config rd) (cols af) (rows af) (cells af)
         \<and> (\<forall>y<nat (rows af). \<forall>x<nat (cols af).
               nat (int y * cols af + int x) < length (cells af)
               \<longrightarrow> Q (cells af ! nat (int y * cols af + int x)))"
  proof (rule render_with_cells [where P = "\<lambda>r. r = rd" and Q = Q, OF _ refl run])
    fix y x :: nat and cw ch :: int and st st' :: "AsciiRenderer \<times> nat \<times> AsciiCell list"
    assume "1 \<le> cw" "1 \<le> ch" "fst st = rd"
      "render_cell (\<lambda>k. []) (config rd) f cw ch y x st = Inr st'"
    then show "fst st' = rd \<and> (\<exists>c. Q c \<and> snd (snd st')
                = (snd (snd st))[nat (int y * gridCols (config rd) + int x) := c])"
      by (rule step)
  qed
  have fields: "cols af = gridCols (config rd)" "rows af = gridRows (config rd)"
    "frameHalfBlock af = halfBlock (config rd)" "framePts af = pts f"
    "length (cells af) = nat (cols af * rows af)"
    "terminalString af = terminal_string (config rd) (cols af) (rows af) (cells af)"
    and written: "\<And>y x. y < nat (rows af) \<Longrightarrow> x < nat (cols af)
          \<Longrightarrow> nat (int y * cols af + int x) < length (cells af)
          \<Longrightarrow> Q (cells af ! nat (int y * cols af + int x))"
    using facts by blast+
  have "Q c" if "c \<in> set (cells af)" for c
  proof -
    from that obtain i where i: "i < length (cells af)" and c: "c = cells af ! i"
      by (auto simp: in_set_conv_nth)
    have "0 < cols af"
      using grid(1) fields(1) by simp
    from grid_index [OF this, of i "rows af"] i fields(5)
    obtain y x where "y < nat (rows af)" "x < nat (cols af)" "i = nat (int y * cols af + int x)"
      by auto
    then show ?thesis
      using written [of y x] i c by simp
  qed
  moreover have "render rd f = Inr af"
    by (simp add: render_def run)
  ultimately show ?thesis
    using fields by blast
qed

text \<open>
  Claim C6 as stated fails: a black 1x1 frame rendered with the default configuration (Gray,
  gamma 2.2, contrast 1) on a 1x1 grid gives the glyph \<open>@\<close>, the leftmost character of the ramp,
  not the space at its right end: luminance 0 is ramp index 0.
\<close>

theorem black_frame_glyph_counterexample:
  "render (configure (default_RendererConfig\<lparr>gridCols := 1, gridRows := 1\<rparr>) new_AsciiRenderer)
     \<lparr>width = 1, height = 1, data = [0, 0, 0], pts = Fin 0\<rparr>
   = Inr \<lparr>cols = 1, rows = 1, frameHalfBlock = False, framePts = Fin 0,
          cells = [\<lparr>glyph = ''@'', fg = 0, bg = 0\<rparr>],
          terminalString = esc # ''[H'' @ esc # ''[38;2;0;0;0m@'' @ esc # ''[0m'' @ [CHR 0x0D, CHR 0x0A]\<rparr>
   \<and> ''@'' \<noteq> '' '' \<and> kRamp ! 0 = CHR ''@'' \<and> kRamp ! 9 = CHR '' ''"
  by (simp add: render_defs renderer_defs sample_defs emit_defs palette_values
      default_RendererConfig_def)

text \<open>
  Claim C6, amended: for every frame whose pixels are all black and every renderer configuration
  with a positive grid of at most \<open>INT_MAX / 8\<close> cells in which neither gamma nor contrast is a
  NaN, \<open>render\<close> returns a frame and every rendered cell's fg is 0x000000.  The glyph depends on
  the configuration: with half-block on it is the half block; with half-block off, contrast 1
  and a finite gamma above zero it is \<open>@\<close>, the leftmost ramp character.  (The renderer holds
  the ramp \<open>kRamp\<close> from its constructor on.)
\<close>

theorem black_frame_cells:
  assumes "uniform_frame f 0 0 0" "0 < gridCols (config rd)" "0 < gridRows (config rd)"
    "gridCols (config rd) * gridRows (config rd) * 8 \<le> 2147483647"
    "gamma (config rd) \<noteq> NaN" "contrast (config rd) \<noteq> NaN" "m_ramp rd = kRamp"
  shows "\<exists>af. render rd f = Inr af
           \<and> length (cells af) = nat (gridCols (config rd) * gridRows (config rd))
           \<and> (\<forall>c\<in>set (cells af). fg c = 0
                 \<and> (halfBlock (config rd) \<longrightarrow> glyph c = half_block_glyph)
                 \<and> (\<not> halfBlock (config rd) \<and> contrast (config rd) = Fin 1
                      \<and> is_finite (gamma (config rd)) \<and> 0 < value_of (gamma (config rd))
                    \<longrightarrow> glyph c = ''@''))"
proof -
  define C where "C = (\<lambda>row col. projr (cell_from_accum rd (one_pixel_accum 0 0 0) row col))"
  have nan: "gamma (m_config rd) \<noteq> NaN" "contrast (m_config rd) \<noteq> NaN"
    using assms(5,6) by (simp_all add: config_def)
  have cell: "cell_from_accum rd (one_pixel_accum 0 0 0) row col = Inr (C row col)
      \<and> fg (C row col) = 0 \<and> bg (C row col) = 0
      \<and> (contrast (m_config rd) = Fin 1 \<and> is_finite (gamma (m_config rd))
           \<and> 0 < value_of (gamma (m_config rd)) \<and> 0 \<le> row \<and> 0 \<le> col
         \<longrightarrow> glyph (C row col) = ''@'')" for row col
    using black_cell [OF nan assms(7), of row col] unfolding C_def by auto
  have ok: "cell_from_accum rd (one_pixel_accum 0 0 0) row col = Inr (C row col)" for row col
    using cell by blast
  have "\<exists>af. render rd f = Inr af
           \<and> cols af = gridCols (config rd) \<and> rows af = gridRows (config rd)
           \<and> frameHalfBlock af = halfBlock (config rd) \<and> framePts af = pts f
           \<and> length (cells af) = nat (cols af * rows af)
           \<and> terminalString af = terminal_string (config rd) (cols af) (rows af) (cells af)
           \<and> (\<forall>c\<in>set (cells af). fg c = 0
                 \<and> (halfBlock (config rd) \<longrightarrow> glyph c = half_block_glyph)
                 \<and> (\<not> halfBlock (config rd) \<and> contrast (config rd) = Fin 1
                      \<and> is_finite (gamma (config rd)) \<and> 0 < value_of (gamma (config rd))
                    \<longrightarrow> glyph c = ''@''))"
  proof (rule render_uniform [where C = C, OF assms(1-4) ok])
    fix row col :: int
    assume "0 \<le> row" "0 \<le> col"
    then show "fg (if halfBlock (config rd)
                   then (C row col)\<lparr>glyph := half_block_glyph, bg := fg (C row col),
                                       fg := fg (C (row + 1) col)\<rparr>
                   else C row col) = 0
        \<and> (halfBlock (config rd) \<longrightarrow>
             glyph (if halfBlock (config rd)
                    then (C row col)\<lparr>glyph := half_block_glyph, bg := fg (C row col),
                                        fg := fg (C (row + 1) col)\<rparr>
                    else C row col) = half_block_glyph)
        \<and> (\<not> halfBlock (config rd) \<and> contrast (config rd) = Fin 1
             \<and> is_finite (gamma (config rd)) \<and> 0 < value_of (gamma (config rd))
           \<longrightarrow> glyph (if halfBlock (config rd)
                    then (C row col)\<lparr>glyph := half_block_glyph, bg := fg (C row col),
                                        fg := fg (C (row + 1) col)\<rparr>
                    else C row col) = ''@'')"
      using cell [of row col] cell [of "row + 1" col] by (simp add: config_def)
  qed
  then show ?thesis
    by auto
qed

text \<open>
  A black pixel rendered with the default configuration on a 1x1 grid, and with gamma infinite,
  where \<open>1 / gamma\<close> is 0: the theorem gives the black colour for both and the glyph \<open>@\<close> for the
  first.
\<close>

theorem black_frame_cells_witness:
  "uniform_frame \<lparr>width = 1, height = 1, data = [0, 0, 0], pts = Fin 0\<rparr> 0 0 0
   \<and> (\<exists>af. render (configure (default_RendererConfig\<lparr>gridCols := 1, gridRows := 1\<rparr>)
                new_AsciiRenderer) \<lparr>width = 1, height = 1, data = [0, 0, 0], pts = Fin 0\<rparr> = Inr af
          \<and> length (cells af) = 1
          \<and> (\<forall>c\<in>set (cells af). fg c = 0 \<and> glyph c = ''@''))
   \<and> (\<exists>af. render (configure (default_RendererConfig\<lparr>gridCols := 1, gridRows := 1, gamma := PInf\<rparr>)
                new_AsciiRenderer) \<lparr>width = 1, height = 1, data = [0, 0, 0], pts = Fin 0\<rparr> = Inr af
          \<and> length (cells af) = 1
          \<and> (\<forall>c\<in>set (cells af). fg c = 0))"
  using black_frame_cells [of "\<lparr>width = 1, height = 1, data = [0, 0, 0], pts = Fin 0\<rparr>"
      "configure (default_RendererConfig\<lparr>gridCols := 1, gridRows := 1\<rparr>) new_AsciiRenderer"]
    black_frame_cells [of "\<lparr>width = 1, height = 1, data = [0, 0, 0], pts = Fin 0\<rparr>"
      "configure (default_RendererConfig\<lparr>gridCols := 1, gridRows := 1, gamma := PInf\<rparr>)
         new_AsciiRenderer"]
  by (simp add: uniform_frame_def renderer_defs default_RendererConfig_def)

section \<open>The terminal string of an ANSI256 frame\<close>

lemma emit_cell_appends: "\<exists>s. buffer (emit_cell cfg c st) = buffer st @ s"
  by (simp add: emit_cell_def flushTrueColor_def Let_def)

lemma emit_cols_appends: "\<exists>s. buffer (emit_cols cfg cs n y xs st) = buffer st @ s"
proof (induction xs arbitrary: st)
  case Nil
  then show ?case by simp
next
  case (Cons x xs)
  obtain s1 where s1: "buffer (emit_cell cfg (cs ! nat (int y * n + int x)) st) = buffer st @ s1"
    using emit_cell_appends by blast
  obtain s2 where "buffer (emit_cols cfg cs n y xs (emit_cell cfg (cs ! nat (int y * n + int x)) st))
      = buffer (emit_cell cfg (cs ! nat (int y * n + int x)) st) @ s2"
    using Cons.IH by blast
  then show ?case
    by (simp add: s1)
qed

lemma emit_rows_appends: "\<exists>s. emit_rows cfg cs n ys buf = buf @ s"
proof (induction ys arbitrary: buf)
  case Nil
  then show ?case by simp
next
  case (Cons y ys)
  obtain s1 where s1: "buffer (emit_cols cfg cs n y [0..<nat n]
      \<lparr>buffer = buf, currentFg = 0xFFFFFFFF, currentBg = 0, haveColor = False\<rparr>) = buf @ s1"
    using emit_cols_appends [of cfg cs n y "[0..<nat n]"
        "\<lparr>buffer = buf, currentFg = 0xFFFFFFFF, currentBg = 0, haveColor = False\<rparr>"]
    by auto
  obtain s2 where "emit_rows cfg cs n ys ((buf @ s1) @ esc # ''[0m'' @ [CHR 0x0D, CHR 0x0A])
      = ((buf @ s1) @ esc # ''[0m'' @ [CHR 0x0D, CHR 0x0A]) @ s2"
    using Cons.IH by blast
  then show ?case
    by (simp add: s1 Let_def)
qed

text \<open>In ANSI256 mode the string starts with the home escape and the SGR of the first cell.\<close>

lemma terminal_string_ansi256_start:
  assumes "mode cfg = ANSI256" "0 < ncols" "0 < nrows"
    and "xterm_index_from_rgb (ucast (drop_bit 16 (fg (cs ! 0)) AND 0xFF))
           (ucast (drop_bit 8 (fg (cs ! 0)) AND 0xFF)) (ucast (fg (cs ! 0) AND 0xFF)) = idx"
  shows "\<exists>rest. terminal_string cfg ncols nrows cs
           = esc # ''[H'' @ esc # ''[38;5;'' @ to_string (int idx) @ ''m'' @ rest"
proof -
  have rows: "[0..<nat nrows] = 0 # [Suc 0..<nat nrows]"
    using assms(3) by (simp add: upt_conv_Cons)
  have columns: "[0..<nat ncols] = 0 # [Suc 0..<nat ncols]"
    using assms(2) by (simp add: upt_conv_Cons)
  define st0 where "st0 = \<lparr>buffer = esc # ''[H'', currentFg = 0xFFFFFFFF, currentBg = 0,
    haveColor = False\<rparr>"
  have "\<exists>s0. buffer (emit_cell cfg (cs ! 0) st0)
      = buffer st0 @ esc # ''[38;5;'' @ to_string (int idx) @ ''m'' @ s0"
    using assms(1,4) by (cases "halfBlock cfg") (simp_all add: emit_cell_def Let_def st0_def)
  then obtain s0 where s0: "buffer (emit_cell cfg (cs ! 0) st0)
      = buffer st0 @ esc # ''[38;5;'' @ to_string (int idx) @ ''m'' @ s0"
    by blast
  obtain s1 where s1: "buffer (emit_cols cfg cs ncols 0 [Suc 0..<nat ncols] (emit_cell cfg (cs ! 0) st0))
      = buffer (emit_cell cfg (cs ! 0) st0) @ s1"
    using emit_cols_appends by blast
  have step1: "buffer (emit_cols cfg cs ncols 0 [Suc 0..<nat ncols] (emit_cell cfg (cs ! 0) st0))
      = buffer st0 @ esc # ''[38;5;'' @ to_string (int idx) @ ''m'' @ s0 @ s1"
    using s1 s0 by simp
  define B where "B = buffer (emit_cols cfg cs ncols 0 [Suc 0..<nat ncols] (emit_cell cfg (cs ! 0) st0))
                 @ esc # ''[0m'' @ [CHR 0x0D, CHR 0x0A]"
  obtain s2 where s2: "emit_rows cfg cs ncols [Suc 0..<nat nrows] B = B @ s2"
    using emit_rows_appends by blast
  have "terminal_string cfg ncols nrows cs = emit_rows cfg cs ncols [Suc 0..<nat nrows] B"
    unfolding terminal_string_def rows st0_def B_def by (simp add: Let_def columns)
  then have "terminal_string cfg ncols nrows cs = B @ s2"
    by (simp only: s2)
  then show ?thesis
    unfolding B_def step1 by (simp add: st0_def)
qed

lemma starts_with_append: "starts_with (frag @ rest) frag"
  by (induction frag) simp_all

lemma contains_fragment_append: "contains_fragment (pre @ frag @ rest) frag"
proof (induction pre)
  case Nil
  show ?case
    using starts_with_append [of frag rest] by (cases "frag @ rest") (auto simp: Nil_is_append_conv)
next
  case (Cons a pre)
  then show ?case by simp
qed

lemma red_cell_colour:
  assumes "mode (m_config rd) = ANSI256"
  shows "fg (cell_of_normalized rd n (one_pixel_accum 200 10 10) row col) = 0xCD0000"
  using assms
  by (simp add: cell_of_normalized_def one_pixel_accum_def to_uint8_def pack_rgb_def Let_def
      xterm_index_200_10_10 xterm_palette_Suc_0)

lemma red_cell:
  assumes "mode (m_config rd) = ANSI256" "gamma (m_config rd) \<noteq> NaN"
    "is_finite (contrast (m_config rd))" "m_ramp rd = kRamp"
  shows "\<exists>c. cell_from_accum rd (one_pixel_accum 200 10 10) row col = Inr c \<and> fg c = 0xCD0000"
proof -
  have con: "contrast (m_config rd) \<noteq> NaN"
    using assms(3) by auto
  from normalized_range [OF assms(2) con, of "one_pixel_accum 200 10 10"] assms(3) obtain n where
    n: "normalized_of rd (one_pixel_accum 200 10 10) = Fin n" "0 \<le> n" "n \<le> 1"
    by auto
  show ?thesis
    using cell_from_accum_finite [OF n assms(4), of row col] red_cell_colour [OF assms(1), of n row col]
    by simp
qed

text \<open>
  Claim C5, amended: rendering a 1x1 input frame with rgb = (200, 10, 10) in ANSI256 mode, on
  any positive grid of at most \<open>INT_MAX / 8\<close> cells and with a gamma that is no NaN and a finite
  contrast, selects palette index 1, the entry (205, 0, 0), as the closest palette entry for the
  foreground of every cell, and the terminal byte string contains the escape \<open>ESC[38;5;1m\<close>: it
  starts with the home escape followed by it.  (The renderer holds the ramp \<open>kRamp\<close> from its
  constructor on.)
\<close>

theorem ansi256_quantization:
  assumes "width f = 1" "height f = 1" "data f = [200, 10, 10]"
    and "mode (config rd) = ANSI256" "0 < gridCols (config rd)" "0 < gridRows (config rd)"
    and "gridCols (config rd) * gridRows (config rd) * 8 \<le> 2147483647"
    and "gamma (config rd) \<noteq> NaN" "is_finite (contrast (config rd))" "m_ramp rd = kRamp"
  shows "xterm_index_from_rgb 200 10 10 = 1 \<and> xterm_palette ! 1 = RGB 205 0 0
         \<and> (\<exists>af. render rd f = Inr af
               \<and> (\<forall>c\<in>set (cells af). fg c = pack_rgb 205 0 0)
               \<and> (\<exists>rest. terminalString af = esc # ''[H'' @ esc # ''[38;5;1m'' @ rest)
               \<and> contains_fragment (terminalString af) (esc # ''[38;5;1m''))"
proof -
  have frame: "uniform_frame f 200 10 10"
    using assms(1-3) by (simp add: uniform_frame_def)
  define C where "C = (\<lambda>row col. projr (cell_from_accum rd (one_pixel_accum 200 10 10) row col))"
  have cfg: "mode (m_config rd) = ANSI256" "gamma (m_config rd) \<noteq> NaN"
    "is_finite (contrast (m_config rd))"
    using assms(4,8,9) by (simp_all add: config_def)
  have cell: "cell_from_accum rd (one_pixel_accum 200 10 10) row col = Inr (C row col)
      \<and> fg (C row col) = 0xCD0000" for row col
    using red_cell [OF cfg assms(10), of row col] unfolding C_def by auto
  have ok: "cell_from_accum rd (one_pixel_accum 200 10 10) row col = Inr (C row col)" for row col
    using cell by blast
  have "\<exists>af. render rd f = Inr af
           \<and> cols af = gridCols (config rd) \<and> rows af = gridRows (config rd)
           \<and> frameHalfBlock af = halfBlock (config rd) \<and> framePts af = pts f
           \<and> length (cells af) = nat (cols af * rows af)
           \<and> terminalString af = terminal_string (config rd) (cols af) (rows af) (cells af)
           \<and> (\<forall>c\<in>set (cells af). fg c = 0xCD0000)"
  proof (rule render_uniform [where C = C, OF frame assms(5-7) ok])
    fix row col :: int
    show "fg (if halfBlock (config rd)
              then (C row col)\<lparr>glyph := half_block_glyph, bg := fg (C row col),
                                  fg := fg (C (row + 1) col)\<rparr>
              else C row col) = 0xCD0000"
      using cell [of row col] cell [of "row + 1" col] by simp
  qed
  then obtain af where run: "render rd f = Inr af"
    and grid: "cols af = gridCols (config rd)" "rows af = gridRows (config rd)"
    and len: "length (cells af) = nat (cols af * rows af)"
    and str: "terminalString af = terminal_string (config rd) (cols af) (rows af) (cells af)"
    and red: "\<forall>c\<in>set (cells af). fg c = 0xCD0000"
    by blast
  have "0 < cols af * rows af"
    using assms(5,6) grid by simp
  then have "cells af ! 0 \<in> set (cells af)"
    using len by (intro nth_mem) simp
  then have first: "fg (cells af ! 0) = 0xCD0000"
    using red by blast
  have idx: "xterm_index_from_rgb (ucast (drop_bit 16 (fg (cells af ! 0)) AND 0xFF))
           (ucast (drop_bit 8 (fg (cells af ! 0)) AND 0xFF)) (ucast (fg (cells af ! 0) AND 0xFF)) = 1"
    unfolding first by (simp add: xterm_index_205_0_0)
  from terminal_string_ansi256_start [OF assms(4) _ _ idx, of "cols af" "rows af"]
  obtain rest where rest: "terminalString af = esc # ''[H'' @ esc # ''[38;5;1m'' @ rest"
    using assms(5,6) grid str by (auto simp: to_string_def digits.simps digit_char_def)
  have "contains_fragment (esc # ''[H'' @ (esc # ''[38;5;1m'') @ rest) (esc # ''[38;5;1m'')"
    using contains_fragment_append [of "esc # ''[H''" "esc # ''[38;5;1m''" rest] by simp
  then have "contains_fragment (terminalString af) (esc # ''[38;5;1m'')"
    unfolding rest by simp
  moreover have "pack_rgb 205 0 0 = 0xCD0000"
    by (simp add: pack_rgb_def)
  ultimately show ?thesis
    using run red rest by (auto simp: xterm_index_200_10_10 xterm_palette_Suc_0)
qed

theorem ansi256_quantization_witness:
  "(let f = \<lparr>width = 1, height = 1, data = [200, 10, 10], pts = Fin 0\<rparr>;
        rd = configure \<lparr>mode = ANSI256, dither = Bayer4, halfBlock = False, gridCols = 1,
                        gridRows = 1, gamma = Fin 2.2, contrast = Fin 1\<rparr> new_AsciiRenderer
    in width f = 1 \<and> height f = 1 \<and> data f = [200, 10, 10] \<and> mode (config rd) = ANSI256
       \<and> 0 < gridCols (config rd) \<and> 0 < gridRows (config rd)
       \<and> gridCols (config rd) * gridRows (config rd) * 8 \<le> 2147483647
       \<and> gamma (config rd) \<noteq> NaN \<and> is_finite (contrast (config rd)) \<and> m_ramp rd = kRamp
       \<and> (\<exists>af. render rd f = Inr af
               \<and> (\<forall>c\<in>set (cells af). fg c = 0xCD0000)
               \<and> contains_fragment (terminalString af) (esc # ''[38;5;1m'')))"
  using ansi256_quantization [of "\<lparr>width = 1, height = 1, data = [200, 10, 10], pts = Fin 0\<rparr>"
      "configure \<lparr>mode = ANSI256, dither = Bayer4, halfBlock = False, gridCols = 1,
                        gridRows = 1, gamma = Fin 2.2, contrast = Fin 1\<rparr> new_AsciiRenderer"]
  by (auto simp: renderer_defs pack_rgb_def)

end
